theory Spec2Isabelle
  imports Main "HOL-Library.Word" "HOL-Library.Sublist"
begin

section \<open>Strings of the host language\<close>

text \<open>
  The plugin is TypeScript; its strings are sequences of 16-bit code units, so a string is
  a list of 16-bit words. \<open>js\<close> turns an ASCII literal into such a string and \<open>doc\<close>
  joins literal lines with the newline code unit, which keeps the example documents readable.
\<close>

type_synonym jsstring = "16 word list"

abbreviation NL :: "16 word" where "NL \<equiv> 0x0A"
abbreviation DOLLAR :: "16 word" where "DOLLAR \<equiv> 0x24"

definition js :: "string \<Rightarrow> jsstring" where
  "js s = map of_char s"

fun joinNL :: "jsstring list \<Rightarrow> jsstring" where
  "joinNL [] = []"
| "joinNL [l] = l"
| "joinNL (l # m # ls) = l @ NL # joinNL (m # ls)"

definition doc :: "string list \<Rightarrow> jsstring" where
  "doc ls = joinNL (map js ls)"

text \<open>The line terminators of the language: LF, CR, U+2028 and U+2029.\<close>

definition is_line_terminator :: "16 word \<Rightarrow> bool" where
  "is_line_terminator c \<longleftrightarrow> c = 0x0A \<or> c = 0x0D \<or> c = 0x2028 \<or> c = 0x2029"

text \<open>
  \<open>split_at_first pat s\<close> is the search behind \<open>String.prototype.indexOf\<close>: the text
  before and after the leftmost occurrence of \<open>pat\<close> in \<open>s\<close>.
\<close>

fun split_at_first :: "jsstring \<Rightarrow> jsstring \<Rightarrow> (jsstring \<times> jsstring) option" where
  "split_at_first pat [] = (if pat = [] then Some ([], []) else None)"
| "split_at_first pat (c # s) =
     (if prefix pat (c # s) then Some ([], drop (length pat) (c # s))
      else map_option (\<lambda>(a, b). (c # a, b)) (split_at_first pat s))"

subsection \<open>Replacement templates\<close>

text \<open>
  \<open>String.prototype.replace\<close> with a string as second argument does not insert that
  string verbatim: it expands the patterns \<open>$$\<close>, \<open>$&\<close>, \<open>$`\<close>, \<open>$'\<close> and
  \<open>$n\<close>/\<open>$nn\<close> (ECMAScript GetSubstitution). \<open>matched\<close> is the matched text, \<open>str\<close>
  the whole subject, \<open>pos\<close> the index of the match and \<open>caps\<close> the capture groups
  (all of them take part in the matches of this program, none is undefined).
\<close>

definition is_digit :: "16 word \<Rightarrow> bool" where
  "is_digit c \<longleftrightarrow> 0x30 \<le> c \<and> c \<le> 0x39"

definition digit_value :: "16 word \<Rightarrow> nat" where
  "digit_value c = unat c - 48"

fun get_substitution ::
  "jsstring \<Rightarrow> jsstring \<Rightarrow> nat \<Rightarrow> jsstring list \<Rightarrow> jsstring \<Rightarrow> jsstring" where
  "get_substitution matched str pos caps [] = []"
| "get_substitution matched str pos caps [c] = [c]"
| "get_substitution matched str pos caps (c # d # t) =
     (if c \<noteq> DOLLAR then c # get_substitution matched str pos caps (d # t)
      else if d = DOLLAR then DOLLAR # get_substitution matched str pos caps t
      else if d = 0x26 then matched @ get_substitution matched str pos caps t
      else if d = 0x60 then take pos str @ get_substitution matched str pos caps t
      else if d = 0x27 then
        drop (min (pos + length matched) (length str)) str @ get_substitution matched str pos caps t
      else if is_digit d then
        (case t of
           [] \<Rightarrow>
             (if 1 \<le> digit_value d \<and> digit_value d \<le> length caps
              then caps ! (digit_value d - 1) else [c, d])
         | e # t' \<Rightarrow>
             (if is_digit e \<and> 10 * digit_value d + digit_value e \<le> length caps then
                (if 1 \<le> 10 * digit_value d + digit_value e
                 then caps ! (10 * digit_value d + digit_value e - 1)
                        @ get_substitution matched str pos caps t'
                 else c # d # e # get_substitution matched str pos caps t')
              else if 1 \<le> digit_value d \<and> digit_value d \<le> length caps
              then caps ! (digit_value d - 1) @ get_substitution matched str pos caps (e # t')
              else c # d # get_substitution matched str pos caps (e # t')))
      else c # get_substitution matched str pos caps (d # t))"

text \<open>\<open>s.replace(pat, repl)\<close> with a string pattern: the leftmost occurrence only.\<close>

definition replace_string :: "jsstring \<Rightarrow> jsstring \<Rightarrow> jsstring \<Rightarrow> jsstring" where
  "replace_string pat repl s =
     (case split_at_first pat s of
        None \<Rightarrow> s
      | Some (pre, post) \<Rightarrow>
          pre @ get_substitution pat s (length pre) [] repl @ post)"

subsection \<open>Numbers as text\<close>

text \<open>
  \<open>Number.prototype.toString\<close> on an integer (every component of a valid date is one):
  decimal digits, with a minus sign for a negative value. \<open>padStart\<close> is
  \<open>String.prototype.padStart\<close>.
\<close>

definition digit_unit :: "nat \<Rightarrow> 16 word" where
  "digit_unit d = of_nat (48 + d)"

fun nat_digits :: "nat \<Rightarrow> jsstring" where
  "nat_digits n =
     (if n < 10 then [digit_unit n] else nat_digits (n div 10) @ [digit_unit (n mod 10)])"

declare nat_digits.simps [simp del]

definition toString :: "int \<Rightarrow> jsstring" where
  "toString i = (if i < 0 then 0x2D # nat_digits (nat (- i)) else nat_digits (nat i))"

definition padStart :: "nat \<Rightarrow> jsstring \<Rightarrow> jsstring \<Rightarrow> jsstring" where
  "padStart n fill s =
     (if n \<le> length s \<or> fill = [] then s
      else take (n - length s) (concat (replicate (n - length s) fill)) @ s)"

section \<open>Settings and the date formatter\<close>

record settings =
  dateFormat :: jsstring
  createdKey :: jsstring
  modifiedKey :: jsstring
  ignorePatterns :: "jsstring list"

definition DEFAULT_SETTINGS :: settings where
  "DEFAULT_SETTINGS =
     \<lparr> dateFormat = js ''yyyy-MM-ddTHH:mm:ss'',
       createdKey = js ''created'',
       modifiedKey = js ''modified'',
       ignorePatterns = [] \<rparr>"

text \<open>
  A date is read through its local-time getters only; the record holds what they return
  (\<open>getMonth\<close> counts from 0).
\<close>

record date =
  getFullYear :: int
  getMonth :: int
  getDate :: int
  getHours :: int
  getMinutes :: int
  getSeconds :: int

definition formatDate :: "settings \<Rightarrow> date \<Rightarrow> jsstring" where
  "formatDate st d =
     (let format = dateFormat st;
          year = toString (getFullYear d);
          month = padStart 2 (js ''0'') (toString (getMonth d + 1));
          day = padStart 2 (js ''0'') (toString (getDate d));
          hours = padStart 2 (js ''0'') (toString (getHours d));
          minutes = padStart 2 (js ''0'') (toString (getMinutes d));
          seconds = padStart 2 (js ''0'') (toString (getSeconds d))
      in replace_string (js ''ss'') seconds
          (replace_string (js ''mm'') minutes
            (replace_string (js ''HH'') hours
              (replace_string (js ''dd'') day
                (replace_string (js ''MM'') month
                  (replace_string (js ''yyyy'') year format))))))"

section \<open>Regular expressions\<close>

text \<open>
  What the host's regular-expression engine does is part of the meaning of the code. The
  fixed frontmatter expression and the two expressions built around a key are written out
  below; for the user's ignore patterns, which may be any pattern of the language, the
  engine is a parameter of the model. \<open>SyntaxError\<close> is the exception of the \<open>RegExp\<close>
  constructor. \<open>OutsideFragment\<close> is not a behaviour of the program: it marks a key or an
  example pattern that the written-out parts do not interpret, so that no statement below
  speaks about such a pattern by accident. \<open>StorageFailure\<close> stands for a rejected read or
  write of the host's vault.
\<close>

datatype error = SyntaxError | OutsideFragment | StorageFailure

text \<open>The syntax characters of the pattern language: \<open>^ $ \ . * + ? ( ) [ ] { } |\<close>.\<close>

definition syntax_character :: "16 word \<Rightarrow> bool" where
  "syntax_character c \<longleftrightarrow>
     c \<in> set [0x5E, 0x24, 0x5C, 0x2E, 0x2A, 0x2B, 0x3F, 0x28, 0x29, 0x5B, 0x5D, 0x7B, 0x7D, 0x7C]"

subsection \<open>The frontmatter expression\<close>

text \<open>
  \<open>/^---\n([\s\S]*?)\n---/\<close> has no flag, so \<open>^\<close> is the start of the text. The lazy
  group takes the shortest text after which \<open>\n---\<close> follows, that is the text up to the
  leftmost \<open>\n---\<close> behind the opening line. The result is the group and the text behind
  the match.
\<close>

definition match_frontmatter :: "jsstring \<Rightarrow> (jsstring \<times> jsstring) option" where
  "match_frontmatter content =
     (if prefix (js ''---'' @ [NL]) content
      then split_at_first (NL # js ''---'') (drop 4 content)
      else None)"

text \<open>
  \<open>content.replace(frontmatterRegex, repl)\<close> for a content that matched with group \<open>fm\<close>
  and remainder \<open>rest\<close>: the match starts at index 0 and the replacement is expanded.
\<close>

definition replace_frontmatter :: "jsstring \<Rightarrow> jsstring \<Rightarrow> jsstring \<Rightarrow> jsstring \<Rightarrow> jsstring" where
  "replace_frontmatter content fm rest repl =
     get_substitution (js ''---'' @ [NL] @ fm @ [NL] @ js ''---'') content 0 [fm] repl @ rest"

subsection \<open>The key expressions\<close>

text \<open>
  \<open>new RegExp(`^${key}:`, "m")\<close> and \<open>new RegExp(`^(${key}:).*$`, "m")\<close> splice the key
  into the pattern unescaped. For a key without syntax character both match the literal
  text \<open>key:\<close> at the start of a line; \<open>key_pattern\<close> gives that literal. Other keys are
  outside the model.
\<close>

definition key_pattern :: "jsstring \<Rightarrow> error + jsstring" where
  "key_pattern key =
     (if \<exists>c \<in> set key. syntax_character c then Inl OutsideFragment else Inr (key @ js '':''))"

text \<open>
  With the flag \<open>m\<close>, \<open>^\<close> holds at index 0 and behind every line terminator.
  \<open>find_line_start lit at_start s\<close> splits \<open>s\<close> around the leftmost occurrence of \<open>lit\<close>
  that begins a line; \<open>at_start\<close> tells whether \<open>s\<close> itself begins one.
\<close>

fun find_line_start :: "jsstring \<Rightarrow> bool \<Rightarrow> jsstring \<Rightarrow> (jsstring \<times> jsstring) option" where
  "find_line_start lit at_start [] = (if at_start \<and> lit = [] then Some ([], []) else None)"
| "find_line_start lit at_start (c # s) =
     (if at_start \<and> prefix lit (c # s) then Some ([], drop (length lit) (c # s))
      else map_option (\<lambda>(a, b). (c # a, b)) (find_line_start lit (is_line_terminator c) s))"

definition test_line_start :: "jsstring \<Rightarrow> jsstring \<Rightarrow> bool" where
  "test_line_start lit s \<longleftrightarrow> find_line_start lit True s \<noteq> None"

text \<open>
  \<open>s.replace(/^(lit).*$/m, repl)\<close>: \<open>.*\<close> runs to the end of the line (\<open>.\<close> takes no
  line terminator) and the only group is \<open>lit\<close>.
\<close>

definition replace_line :: "jsstring \<Rightarrow> jsstring \<Rightarrow> jsstring \<Rightarrow> jsstring" where
  "replace_line lit repl s =
     (case find_line_start lit True s of
        None \<Rightarrow> s
      | Some (pre, post) \<Rightarrow>
          pre @ get_substitution (lit @ takeWhile (\<lambda>c. \<not> is_line_terminator c) post) s
                  (length pre) [lit] repl
              @ dropWhile (\<lambda>c. \<not> is_line_terminator c) post)"

subsection \<open>Ignore patterns\<close>

text \<open>
  An ignore pattern is compiled by \<open>new RegExp(pattern)\<close>, without flags, and tried on the
  path with \<open>regex.test(file.path)\<close>. Which patterns the constructor accepts and what a
  compiled expression matches is the business of the host's engine, which the model takes
  as a parameter: \<open>construct\<close> is the constructor, which returns the compiled expression
  or throws, and \<open>matches_from rx r s i\<close> tells whether the expression \<open>r\<close> matches in \<open>s\<close>
  from the index \<open>i\<close> on. Without the flags \<open>g\<close> and \<open>y\<close>, \<open>test\<close> tries the indices
  \<open>0\<close>, \<open>1\<close>, ... up to the length of the text and answers at the first that matches.
\<close>

record 'r regexp =
  construct :: "jsstring \<Rightarrow> error + 'r"
  matches_from :: "'r \<Rightarrow> jsstring \<Rightarrow> nat \<Rightarrow> bool"

definition regex_test :: "'r regexp \<Rightarrow> 'r \<Rightarrow> jsstring \<Rightarrow> bool" where
  "regex_test rx r s \<longleftrightarrow> list_ex (matches_from rx r s) [0..<Suc (length s)]"

text \<open>
  \<open>ignorePatterns.some(...)\<close> compiles and tests the patterns in order and stops at the
  first that matches; a pattern that does not compile throws when it is reached.
\<close>

fun some_pattern :: "'r regexp \<Rightarrow> jsstring \<Rightarrow> jsstring list \<Rightarrow> error + bool" where
  "some_pattern rx path [] = Inr False"
| "some_pattern rx path (pattern # ps) =
     (case construct rx pattern of
        Inl x \<Rightarrow> Inl x
      | Inr regex \<Rightarrow> if regex_test rx regex path then Inr True else some_pattern rx path ps)"

definition shouldIgnoreFile :: "'r regexp \<Rightarrow> settings \<Rightarrow> jsstring \<Rightarrow> error + bool" where
  "shouldIgnoreFile rx st path = some_pattern rx path (ignorePatterns st)"

subsection \<open>The engine on simple patterns\<close>

text \<open>
  For the examples the engine is written out on the patterns made of literal characters,
  escaped syntax characters (and \<open>\/\<close>), the dot, the star behind one of these, and the
  assertions \<open>^\<close> and \<open>$\<close>, which without the flag \<open>m\<close> hold at the start and at the
  end of the text only. A star with nothing to repeat (at the head of the pattern, behind
  another star or behind an assertion) and a backslash at the end of the pattern are the
  constructor's syntax errors. Every other pattern is answered with \<open>OutsideFragment\<close>:
  \<open>simple_patterns\<close> is the host's engine on the simple patterns only, and no general
  statement depends on it.
\<close>

datatype atom = Lit "16 word" | AnyChar

datatype item = Once atom | Many atom | AtStart | AtEnd

datatype token = TAtom atom | TStar | TStart | TEnd

fun tokens :: "jsstring \<Rightarrow> error + token list" where
  "tokens [] = Inr []"
| "tokens [c] =
     (if c = 0x5C then Inl SyntaxError
      else if c = 0x2E then Inr [TAtom AnyChar]
      else if c = 0x2A then Inr [TStar]
      else if c = 0x5E then Inr [TStart]
      else if c = 0x24 then Inr [TEnd]
      else if syntax_character c then Inl OutsideFragment
      else Inr [TAtom (Lit c)])"
| "tokens (c # e # s) =
     (if c = 0x5C then
        (if syntax_character e \<or> e = 0x2F
         then (case tokens s of Inl x \<Rightarrow> Inl x | Inr ts \<Rightarrow> Inr (TAtom (Lit e) # ts))
         else Inl OutsideFragment)
      else if c = 0x2E then
        (case tokens (e # s) of Inl x \<Rightarrow> Inl x | Inr ts \<Rightarrow> Inr (TAtom AnyChar # ts))
      else if c = 0x2A then
        (case tokens (e # s) of Inl x \<Rightarrow> Inl x | Inr ts \<Rightarrow> Inr (TStar # ts))
      else if c = 0x5E then
        (case tokens (e # s) of Inl x \<Rightarrow> Inl x | Inr ts \<Rightarrow> Inr (TStart # ts))
      else if c = 0x24 then
        (case tokens (e # s) of Inl x \<Rightarrow> Inl x | Inr ts \<Rightarrow> Inr (TEnd # ts))
      else if syntax_character c then Inl OutsideFragment
      else (case tokens (e # s) of Inl x \<Rightarrow> Inl x | Inr ts \<Rightarrow> Inr (TAtom (Lit c) # ts)))"

fun items :: "token list \<Rightarrow> error + item list" where
  "items [] = Inr []"
| "items (TStar # ts) = Inl SyntaxError"
| "items (TAtom a # TStar # ts) =
     (case items ts of Inl x \<Rightarrow> Inl x | Inr r \<Rightarrow> Inr (Many a # r))"
| "items (TAtom a # ts) =
     (case items ts of Inl x \<Rightarrow> Inl x | Inr r \<Rightarrow> Inr (Once a # r))"
| "items (TStart # ts) =
     (case items ts of Inl x \<Rightarrow> Inl x | Inr r \<Rightarrow> Inr (AtStart # r))"
| "items (TEnd # ts) =
     (case items ts of Inl x \<Rightarrow> Inl x | Inr r \<Rightarrow> Inr (AtEnd # r))"

definition compile_simple :: "jsstring \<Rightarrow> error + item list" where
  "compile_simple pattern = (case tokens pattern of Inl x \<Rightarrow> Inl x | Inr ts \<Rightarrow> items ts)"

fun atom_matches :: "atom \<Rightarrow> 16 word \<Rightarrow> bool" where
  "atom_matches (Lit l) c \<longleftrightarrow> c = l"
| "atom_matches AnyChar c \<longleftrightarrow> \<not> is_line_terminator c"

text \<open>
  \<open>match_here at_start r s\<close>: the expression matches some prefix of \<open>s\<close>, the rest of
  the text from some index on; \<open>at_start\<close> tells whether that index is 0.
\<close>

fun match_here :: "bool \<Rightarrow> item list \<Rightarrow> jsstring \<Rightarrow> bool" where
  "match_here at_start [] s \<longleftrightarrow> True"
| "match_here at_start (Once a # r) [] \<longleftrightarrow> False"
| "match_here at_start (Once a # r) (c # s) \<longleftrightarrow> atom_matches a c \<and> match_here False r s"
| "match_here at_start (Many a # r) [] \<longleftrightarrow> match_here at_start r []"
| "match_here at_start (Many a # r) (c # s) \<longleftrightarrow>
     (atom_matches a c \<and> match_here False (Many a # r) s) \<or> match_here at_start r (c # s)"
| "match_here at_start (AtStart # r) s \<longleftrightarrow> at_start \<and> match_here at_start r s"
| "match_here at_start (AtEnd # r) s \<longleftrightarrow> s = [] \<and> match_here at_start r s"

definition simple_patterns :: "item list regexp" where
  "simple_patterns =
     \<lparr> construct = compile_simple,
       matches_from = (\<lambda>r s i. match_here (i = 0) r (drop i s)) \<rparr>"

section \<open>The frontmatter editor\<close>

definition addFrontmatter :: "settings \<Rightarrow> jsstring \<Rightarrow> jsstring \<Rightarrow> jsstring \<Rightarrow> error + jsstring" where
  "addFrontmatter st content created modified =
     (case match_frontmatter content of
        Some (frontmatter, rest) \<Rightarrow>
          (case key_pattern (createdKey st) of
             Inl x \<Rightarrow> Inl x
           | Inr createdLit \<Rightarrow>
               (let fm1 = (if \<not> test_line_start createdLit frontmatter
                           then createdKey st @ js '': '' @ created @ [NL] @ frontmatter
                           else frontmatter)
                in case key_pattern (modifiedKey st) of
                     Inl x \<Rightarrow> Inl x
                   | Inr modifiedLit \<Rightarrow>
                       (let fm2 = (if \<not> test_line_start modifiedLit fm1
                                   then fm1 @ [NL] @ modifiedKey st @ js '': '' @ modified
                                   else fm1)
                        in Inr (replace_frontmatter content frontmatter rest
                                  (js ''---'' @ [NL] @ fm2 @ [NL] @ js ''---'')))))
      | None \<Rightarrow>
          Inr (js ''---'' @ [NL] @ createdKey st @ js '': '' @ created @ [NL]
                 @ modifiedKey st @ js '': '' @ modified @ [NL] @ js ''---'' @ [NL] @ content))"

definition updateModifiedTime :: "settings \<Rightarrow> jsstring \<Rightarrow> jsstring \<Rightarrow> error + jsstring" where
  "updateModifiedTime st content modified =
     (case match_frontmatter content of
        None \<Rightarrow> Inr content
      | Some (frontmatter, rest) \<Rightarrow>
          (case key_pattern (modifiedKey st) of
             Inl x \<Rightarrow> Inl x
           | Inr modifiedLit \<Rightarrow>
               (let fm1 = (if test_line_start modifiedLit frontmatter
                           then replace_line modifiedLit (js ''$1 '' @ modified) frontmatter
                           else frontmatter @ [NL] @ modifiedKey st @ js '': '' @ modified)
                in case key_pattern (createdKey st) of
                     Inl x \<Rightarrow> Inl x
                   | Inr createdLit \<Rightarrow>
                       (let fm2 = (if \<not> test_line_start createdLit fm1
                                   then createdKey st @ js '': '' @ modified @ [NL] @ fm1
                                   else fm1)
                        in Inr (replace_frontmatter content frontmatter rest
                                  (js ''---'' @ [NL] @ fm2 @ [NL] @ js ''---''))))))"

section \<open>The event handlers\<close>

text \<open>
  The plugin's own state is the flag \<open>isUpdating\<close>. The host's vault maps a path to the
  text stored there; \<open>modifyCalls\<close> records every call of \<open>vault.modify\<close> in order. The
  handlers are \<open>async\<close> functions: a handler runs up to an \<open>await\<close>, and the host may run
  other handlers before it goes on. Two descriptions follow. The first is one handler from
  its guard to its end with nothing in between; the second keeps the handlers that wait at
  an \<open>await\<close> in the state and lets the host choose what happens next.
\<close>

subsection \<open>One handler, run without interruption\<close>

text \<open>
  The handler runs with the host's engine \<open>rx\<close>, with the clock reading \<open>now\<close> of its
  \<open>new Date()\<close> and with \<open>modify_ok\<close>, which says whether the host completes a write or
  rejects it. It ends resolved or rejected with the error that escaped it. The pause of
  100 ms before the read in \<open>handleFileCreate\<close> changes nothing in a run that is not
  interrupted.
\<close>

record world =
  isUpdating :: bool
  vault :: "jsstring \<rightharpoonup> jsstring"
  modifyCalls :: "(jsstring \<times> jsstring) list"

datatype outcome = Resolved | Rejected error

definition write_back :: "bool \<Rightarrow> jsstring \<Rightarrow> jsstring \<Rightarrow> world \<Rightarrow> outcome \<times> world" where
  "write_back modify_ok path updatedContent w =
     (let w1 = w\<lparr>isUpdating := True, modifyCalls := modifyCalls w @ [(path, updatedContent)]\<rparr>
      in if modify_ok
         then (Resolved, w1\<lparr>vault := (vault w1)(path \<mapsto> updatedContent), isUpdating := False\<rparr>)
         else (Rejected StorageFailure, w1))"

definition handleFileCreate ::
  "'r regexp \<Rightarrow> settings \<Rightarrow> date \<Rightarrow> bool \<Rightarrow> jsstring \<Rightarrow> world \<Rightarrow> outcome \<times> world" where
  "handleFileCreate rx st now modify_ok path w =
     (if isUpdating w then (Resolved, w)
      else case shouldIgnoreFile rx st path of
        Inl x \<Rightarrow> (Rejected x, w)
      | Inr True \<Rightarrow> (Resolved, w)
      | Inr False \<Rightarrow>
          (case vault w path of
             None \<Rightarrow> (Rejected StorageFailure, w)
           | Some content \<Rightarrow>
               (case addFrontmatter st content (formatDate st now) (formatDate st now) of
                  Inl x \<Rightarrow> (Rejected x, w)
                | Inr updatedContent \<Rightarrow>
                    if updatedContent \<noteq> content
                    then write_back modify_ok path updatedContent w
                    else (Resolved, w))))"

definition handleFileModify ::
  "'r regexp \<Rightarrow> settings \<Rightarrow> date \<Rightarrow> bool \<Rightarrow> jsstring \<Rightarrow> world \<Rightarrow> outcome \<times> world" where
  "handleFileModify rx st now modify_ok path w =
     (if isUpdating w then (Resolved, w)
      else case shouldIgnoreFile rx st path of
        Inl x \<Rightarrow> (Rejected x, w)
      | Inr True \<Rightarrow> (Resolved, w)
      | Inr False \<Rightarrow>
          (case vault w path of
             None \<Rightarrow> (Rejected StorageFailure, w)
           | Some content \<Rightarrow>
               (case updateModifiedTime st content (formatDate st now) of
                  Inl x \<Rightarrow> (Rejected x, w)
                | Inr updatedContent \<Rightarrow>
                    if updatedContent \<noteq> content
                    then write_back modify_ok path updatedContent w
                    else (Resolved, w))))"

subsection \<open>Handlers that wait for the host\<close>

text \<open>
  A handler that has passed its guard is a task in flight until it returns or throws.
  \<open>handleFileCreate\<close> first waits for its pause (\<open>Delaying\<close>), then for the read
  (\<open>ReadingCreated\<close>); \<open>handleFileModify\<close> waits for the read at once
  (\<open>ReadingModified\<close>). Behind the read a handler takes the time, edits the text,
  compares, and, when the text has changed, sets the flag and calls \<open>vault.modify\<close>, all
  in one piece; then it waits for the write (\<open>Writing\<close>). When the write completes the
  handler resets the flag and ends; when the write is rejected the handler ends at the
  \<open>await\<close> and the line that resets the flag is not reached.
\<close>

datatype task =
    Delaying jsstring
  | ReadingCreated jsstring
  | ReadingModified jsstring
  | Writing jsstring jsstring

record sys = world +
  in_flight :: "task list"

text \<open>
  What the host can do: emit the event \<open>create\<close> or \<open>modify\<close> for a file or a folder
  (the listeners registered in \<open>onload\<close> pass on Markdown files only), let the pause of
  the task at an index elapse, complete the read of a task (the handler then looks at the
  clock), complete or reject the write of a task, and store a text on behalf of the user
  or of another program.
\<close>

datatype abstract_file = TFile jsstring jsstring | TFolder jsstring

datatype action =
    Create abstract_file
  | Modify abstract_file
  | Elapse nat
  | ReadDone nat date
  | WriteDone nat bool
  | Store jsstring jsstring

definition task_at :: "nat \<Rightarrow> task list \<Rightarrow> task option" where
  "task_at i ts = (if i < length ts then Some (ts ! i) else None)"

definition drop_task :: "nat \<Rightarrow> task list \<Rightarrow> task list" where
  "drop_task i ts = take i ts @ drop (Suc i) ts"

text \<open>The head of both handlers: the guard, after which the handler is in flight.\<close>

definition begin_handler :: "'r regexp \<Rightarrow> settings \<Rightarrow> jsstring \<Rightarrow> task \<Rightarrow> sys \<Rightarrow> sys" where
  "begin_handler rx st path t s =
     (if isUpdating s then s
      else case shouldIgnoreFile rx st path of
        Inl x \<Rightarrow> s
      | Inr True \<Rightarrow> s
      | Inr False \<Rightarrow> s\<lparr>in_flight := in_flight s @ [t]\<rparr>)"

text \<open>
  The part of both handlers between the read and the write; \<open>edit\<close> is the editor
  operation of the handler with the time filled in.
\<close>

definition after_read :: "nat \<Rightarrow> jsstring \<Rightarrow> (jsstring \<Rightarrow> error + jsstring) \<Rightarrow> sys \<Rightarrow> sys" where
  "after_read i path edit s =
     (case vault s path of
        None \<Rightarrow> s\<lparr>in_flight := drop_task i (in_flight s)\<rparr>
      | Some content \<Rightarrow>
          (case edit content of
             Inl x \<Rightarrow> s\<lparr>in_flight := drop_task i (in_flight s)\<rparr>
           | Inr updatedContent \<Rightarrow>
               if updatedContent \<noteq> content
               then s\<lparr>isUpdating := True,
                      modifyCalls := modifyCalls s @ [(path, updatedContent)],
                      in_flight := (in_flight s)[i := Writing path updatedContent]\<rparr>
               else s\<lparr>in_flight := drop_task i (in_flight s)\<rparr>))"

fun step :: "'r regexp \<Rightarrow> settings \<Rightarrow> action \<Rightarrow> sys \<Rightarrow> sys" where
  "step rx st (Create (TFile path extension)) s =
     (if extension = js ''md'' then begin_handler rx st path (Delaying path) s else s)"
| "step rx st (Create (TFolder path)) s = s"
| "step rx st (Modify (TFile path extension)) s =
     (if extension = js ''md'' then begin_handler rx st path (ReadingModified path) s else s)"
| "step rx st (Modify (TFolder path)) s = s"
| "step rx st (Elapse i) s =
     (case task_at i (in_flight s) of
        Some (Delaying path) \<Rightarrow> s\<lparr>in_flight := (in_flight s)[i := ReadingCreated path]\<rparr>
      | _ \<Rightarrow> s)"
| "step rx st (ReadDone i now) s =
     (case task_at i (in_flight s) of
        Some (ReadingCreated path) \<Rightarrow>
          after_read i path
            (\<lambda>content. addFrontmatter st content (formatDate st now) (formatDate st now)) s
      | Some (ReadingModified path) \<Rightarrow>
          after_read i path (\<lambda>content. updateModifiedTime st content (formatDate st now)) s
      | _ \<Rightarrow> s)"
| "step rx st (WriteDone i modify_ok) s =
     (case task_at i (in_flight s) of
        Some (Writing path updatedContent) \<Rightarrow>
          if modify_ok
          then s\<lparr>vault := (vault s)(path \<mapsto> updatedContent), isUpdating := False,
                 in_flight := drop_task i (in_flight s)\<rparr>
          else s\<lparr>in_flight := drop_task i (in_flight s)\<rparr>
      | _ \<Rightarrow> s)"
| "step rx st (Store path text) s = s\<lparr>vault := (vault s)(path \<mapsto> text)\<rparr>"

fun run :: "'r regexp \<Rightarrow> settings \<Rightarrow> action list \<Rightarrow> sys \<Rightarrow> sys" where
  "run rx st [] s = s"
| "run rx st (a # as) s = run rx st as (step rx st a s)"

section \<open>Notions of the specification\<close>

text \<open>
  The specification speaks of lines, of a pattern that matches somewhere in a path and of
  the first occurrence of a placeholder. These notions are defined here from its words,
  apart from the program, so that the program can be compared with them. The notions in
  which a claim is amended stand beside them.
\<close>




text \<open>
  A pattern compiles when the constructor of the engine returns an expression, and it
  matches anywhere in a path when that expression matches from some index of the path on.
\<close>

definition compiles :: "'r regexp \<Rightarrow> jsstring \<Rightarrow> bool" where
  "compiles rx pattern \<longleftrightarrow> (\<exists>r. construct rx pattern = Inr r)"

definition pattern_matches :: "'r regexp \<Rightarrow> jsstring \<Rightarrow> jsstring \<Rightarrow> bool" where
  "pattern_matches rx pattern path \<longleftrightarrow>
     (\<exists>r i. construct rx pattern = Inr r \<and> i \<le> length path \<and> matches_from rx r path i)"

text \<open>
  The texts a simple pattern describes: \<open>matches_in r pre w post\<close> says that \<open>r\<close>
  describes \<open>w\<close> where \<open>w\<close> stands between \<open>pre\<close> and \<open>post\<close>. And what it is for
  such a text to stand somewhere in a path.
\<close>

fun matches_in :: "item list \<Rightarrow> jsstring \<Rightarrow> jsstring \<Rightarrow> jsstring \<Rightarrow> bool" where
  "matches_in [] pre w post \<longleftrightarrow> w = []"
| "matches_in (Once a # r) pre w post \<longleftrightarrow>
     (\<exists>c w'. w = c # w' \<and> atom_matches a c \<and> matches_in r (pre @ [c]) w' post)"
| "matches_in (Many a # r) pre w post \<longleftrightarrow>
     (\<exists>u w'. w = u @ w' \<and> list_all (atom_matches a) u \<and> matches_in r (pre @ u) w' post)"
| "matches_in (AtStart # r) pre w post \<longleftrightarrow> pre = [] \<and> matches_in r pre w post"
| "matches_in (AtEnd # r) pre w post \<longleftrightarrow> w = [] \<and> post = [] \<and> matches_in r pre w post"

definition matches_anywhere :: "item list \<Rightarrow> jsstring \<Rightarrow> bool" where
  "matches_anywhere r s \<longleftrightarrow> (\<exists>pre w post. s = pre @ w @ post \<and> matches_in r pre w post)"

text \<open>
  \<open>first_occurrence tok s a b\<close>: \<open>s\<close> is \<open>a\<close>, \<open>tok\<close>, \<open>b\<close>, and no occurrence of \<open>tok\<close>
  starts further left. \<open>replaces_first tok v s s'\<close>: \<open>s'\<close> is \<open>s\<close> with the first
  occurrence of \<open>tok\<close> replaced by \<open>v\<close>, or \<open>s\<close> itself when \<open>tok\<close> does not occur.
  \<open>substitution_chain\<close> makes such replacements one after the other, in the order of the
  table.
\<close>

definition first_occurrence :: "jsstring \<Rightarrow> jsstring \<Rightarrow> jsstring \<Rightarrow> jsstring \<Rightarrow> bool" where
  "first_occurrence tok s a b \<longleftrightarrow>
     s = a @ tok @ b \<and> (\<forall>a' b'. s = a' @ tok @ b' \<longrightarrow> length a \<le> length a')"

definition replaces_first :: "jsstring \<Rightarrow> jsstring \<Rightarrow> jsstring \<Rightarrow> jsstring \<Rightarrow> bool" where
  "replaces_first tok v s s' \<longleftrightarrow>
     (\<exists>a b. first_occurrence tok s a b \<and> s' = a @ v @ b) \<or>
     ((\<forall>a b. s \<noteq> a @ tok @ b) \<and> s' = s)"

fun substitution_chain :: "(jsstring \<times> jsstring) list \<Rightarrow> jsstring \<Rightarrow> jsstring \<Rightarrow> bool" where
  "substitution_chain [] s s' \<longleftrightarrow> s' = s"
| "substitution_chain ((tok, v) # table) s s' \<longleftrightarrow>
     (\<exists>s1. replaces_first tok v s s1 \<and> substitution_chain table s1 s')"

definition zero_padded :: "nat \<Rightarrow> int \<Rightarrow> jsstring" where
  "zero_padded width n = padStart width (js ''0'') (toString n)"

text \<open>
  A key as a frontmatter line names it: no syntax character of the pattern language, no
  line terminator and no colon.
\<close>

definition simple_key :: "jsstring \<Rightarrow> bool" where
  "simple_key key \<longleftrightarrow>
     list_all (\<lambda>c. \<not> syntax_character c \<and> \<not> is_line_terminator c \<and> c \<noteq> 0x3A) key"

text \<open>
  What the specification says the editor does to the inner text of a block.
  \<open>with_modified\<close>: the first line that starts with \<open>key:\<close> gets the value, in
  place, or a line \<open>key: value\<close> is appended when there is none.
  \<open>with_created\<close>: a line \<open>key: value\<close> is put in front unless a line starts with
  \<open>key:\<close>. \<open>add_modified\<close>: a line \<open>key: value\<close> is appended unless a line starts
  with \<open>key:\<close>.
\<close>

definition with_modified :: "jsstring \<Rightarrow> jsstring \<Rightarrow> jsstring \<Rightarrow> jsstring" where
  "with_modified key v fm =
     (case find_line_start (key @ js '':'') True fm of
        Some (pre, post) \<Rightarrow>
          pre @ (key @ js '':'') @ js '' '' @ v @ dropWhile (\<lambda>c. \<not> is_line_terminator c) post
      | None \<Rightarrow> fm @ [NL] @ (key @ js '':'') @ js '' '' @ v)"

definition with_created :: "jsstring \<Rightarrow> jsstring \<Rightarrow> jsstring \<Rightarrow> jsstring" where
  "with_created key v fm =
     (if test_line_start (key @ js '':'') fm then fm
      else (key @ js '':'') @ js '' '' @ v @ [NL] @ fm)"


section \<open>Evaluation of literals\<close>

lemma js_Nil: "js [] = []"
  by (simp add: js_def)

lemma js_Cons: "js (c # s) = of_char c # js s"
  by (simp add: js_def)

lemma doc_joinNL: "doc ls = joinNL (map js ls)"
  by (simp add: doc_def)

lemmas js_simps = js_Nil js_Cons doc_joinNL

section \<open>The handlers and the vault\<close>

lemma handler_guard:
  "isUpdating w \<Longrightarrow> handleFileCreate rx st now ok path w = (Resolved, w)"
  "isUpdating w \<Longrightarrow> handleFileModify rx st now ok path w = (Resolved, w)"
  by (simp_all add: handleFileCreate_def handleFileModify_def)

lemma write_back_calls:
  "modifyCalls (snd (write_back ok path u w)) = modifyCalls w @ [(path, u)]"
  by (simp add: write_back_def Let_def)

lemma write_back_rejected:
  "write_back False path u w =
     (Rejected StorageFailure,
      w\<lparr>isUpdating := True, modifyCalls := modifyCalls w @ [(path, u)]\<rparr>)"
  by (simp add: write_back_def Let_def)

lemma create_cases:
  "handleFileCreate rx st now ok path w = (r, w') \<Longrightarrow>
     w' = w \<or>
     (\<exists>content updated. \<not> isUpdating w \<and> shouldIgnoreFile rx st path = Inr False \<and>
        vault w path = Some content \<and>
        addFrontmatter st content (formatDate st now) (formatDate st now) = Inr updated \<and>
        updated \<noteq> content \<and> (r, w') = write_back ok path updated w)"
  by (auto simp: handleFileCreate_def split: if_splits sum.splits bool.splits option.splits)

lemma modify_cases:
  "handleFileModify rx st now ok path w = (r, w') \<Longrightarrow>
     w' = w \<or>
     (\<exists>content updated. \<not> isUpdating w \<and> shouldIgnoreFile rx st path = Inr False \<and>
        vault w path = Some content \<and>
        updateModifiedTime st content (formatDate st now) = Inr updated \<and>
        updated \<noteq> content \<and> (r, w') = write_back ok path updated w)"
  by (auto simp: handleFileModify_def split: if_splits sum.splits bool.splits option.splits)

subsection \<open>Example runs\<close>

lemma example_now:
  "formatDate DEFAULT_SETTINGS
     \<lparr>getFullYear = 2024, getMonth = 11, getDate = 29, getHours = 14, getMinutes = 30,
      getSeconds = 52\<rparr> = js ''2024-12-29T14:30:52''"
  by code_simp

lemma example_settled:
  "addFrontmatter DEFAULT_SETTINGS
     (doc [''---'', ''created: 1'', ''modified: 2024-12-29T14:30:52'', ''---'', ''body''])
     (js ''2024-12-29T14:30:52'') (js ''2024-12-29T14:30:52'') =
   Inr (doc [''---'', ''created: 1'', ''modified: 2024-12-29T14:30:52'', ''---'', ''body''])"
  "updateModifiedTime DEFAULT_SETTINGS
     (doc [''---'', ''created: 1'', ''modified: 2024-12-29T14:30:52'', ''---'', ''body''])
     (js ''2024-12-29T14:30:52'') =
   Inr (doc [''---'', ''created: 1'', ''modified: 2024-12-29T14:30:52'', ''---'', ''body''])"
  by code_simp+

lemma example_stale:
  "addFrontmatter DEFAULT_SETTINGS (js ''body'')
     (js ''2024-12-29T14:30:52'') (js ''2024-12-29T14:30:52'') =
   Inr (doc [''---'', ''created: 2024-12-29T14:30:52'', ''modified: 2024-12-29T14:30:52'', ''---'', ''body''])"
  "updateModifiedTime DEFAULT_SETTINGS
     (doc [''---'', ''created: 1'', ''modified: 2'', ''---'', ''body''])
     (js ''2024-12-29T14:30:52'') =
   Inr (doc [''---'', ''created: 1'', ''modified: 2024-12-29T14:30:52'', ''---'', ''body''])"
  by code_simp+


lemma example_differs:
  "doc [''---'', ''created: 2024-12-29T14:30:52'', ''modified: 2024-12-29T14:30:52'', ''---'', ''body'']
     \<noteq> js ''body''"
  "doc [''---'', ''created: 1'', ''modified: 2024-12-29T14:30:52'', ''---'', ''body'']
     \<noteq> doc [''---'', ''created: 1'', ''modified: 2'', ''---'', ''body'']"
  by (simp_all add: js_simps)

lemma example_ignore: "shouldIgnoreFile rx DEFAULT_SETTINGS p = Inr False"
  by (simp add: shouldIgnoreFile_def DEFAULT_SETTINGS_def)

subsection \<open>Writes\<close>

text \<open>
  Claim C9. When the editor operation maps the content read from the vault to the same
  text, the create and the modify handler leave the world as it was: no call of
  \<open>vault.modify\<close>, no change of the flag. Conversely a handler that issued a write
  read some content, transformed it to a different text, and wrote that text to the path
  of the event.
\<close>

theorem no_write_unless_content_changes:
  "(vault w path = Some content \<and>
      addFrontmatter st content (formatDate st now) (formatDate st now) = Inr content
      \<longrightarrow> snd (handleFileCreate rx st now ok path w) = w)
   \<and> (vault w path = Some content \<and>
      updateModifiedTime st content (formatDate st now) = Inr content
      \<longrightarrow> snd (handleFileModify rx st now ok path w) = w)
   \<and> (modifyCalls (snd (handleFileCreate rx st now ok path w)) \<noteq> modifyCalls w
      \<longrightarrow> (\<exists>content updated. vault w path = Some content \<and>
             addFrontmatter st content (formatDate st now) (formatDate st now) = Inr updated \<and>
             updated \<noteq> content \<and>
             modifyCalls (snd (handleFileCreate rx st now ok path w)) = modifyCalls w @ [(path, updated)]))
   \<and> (modifyCalls (snd (handleFileModify rx st now ok path w)) \<noteq> modifyCalls w
      \<longrightarrow> (\<exists>content updated. vault w path = Some content \<and>
             updateModifiedTime st content (formatDate st now) = Inr updated \<and>
             updated \<noteq> content \<and>
             modifyCalls (snd (handleFileModify rx st now ok path w)) = modifyCalls w @ [(path, updated)]))"
proof (intro conjI impI)
  assume "vault w path = Some content \<and>
      addFrontmatter st content (formatDate st now) (formatDate st now) = Inr content"
  then show "snd (handleFileCreate rx st now ok path w) = w"
    by (simp add: handleFileCreate_def split: sum.splits bool.splits)
next
  assume "vault w path = Some content \<and>
      updateModifiedTime st content (formatDate st now) = Inr content"
  then show "snd (handleFileModify rx st now ok path w) = w"
    by (simp add: handleFileModify_def split: sum.splits bool.splits)
next
  assume a: "modifyCalls (snd (handleFileCreate rx st now ok path w)) \<noteq> modifyCalls w"
  obtain r w' where rw: "handleFileCreate rx st now ok path w = (r, w')"
    by (cases "handleFileCreate rx st now ok path w")
  from create_cases [OF rw] a rw
  obtain content updated where
    "vault w path = Some content"
    "addFrontmatter st content (formatDate st now) (formatDate st now) = Inr updated"
    "updated \<noteq> content" "(r, w') = write_back ok path updated w"
    by auto
  moreover from this rw
  have "modifyCalls (snd (handleFileCreate rx st now ok path w)) = modifyCalls w @ [(path, updated)]"
    by (simp add: write_back_calls)
  ultimately show "\<exists>content updated. vault w path = Some content \<and>
             addFrontmatter st content (formatDate st now) (formatDate st now) = Inr updated \<and>
             updated \<noteq> content \<and>
             modifyCalls (snd (handleFileCreate rx st now ok path w)) = modifyCalls w @ [(path, updated)]"
    by blast
next
  assume a: "modifyCalls (snd (handleFileModify rx st now ok path w)) \<noteq> modifyCalls w"
  obtain r w' where rw: "handleFileModify rx st now ok path w = (r, w')"
    by (cases "handleFileModify rx st now ok path w")
  from modify_cases [OF rw] a rw
  obtain content updated where
    "vault w path = Some content"
    "updateModifiedTime st content (formatDate st now) = Inr updated"
    "updated \<noteq> content" "(r, w') = write_back ok path updated w"
    by auto
  moreover from this rw
  have "modifyCalls (snd (handleFileModify rx st now ok path w)) = modifyCalls w @ [(path, updated)]"
    by (simp add: write_back_calls)
  ultimately show "\<exists>content updated. vault w path = Some content \<and>
             updateModifiedTime st content (formatDate st now) = Inr updated \<and>
             updated \<noteq> content \<and>
             modifyCalls (snd (handleFileModify rx st now ok path w)) = modifyCalls w @ [(path, updated)]"
    by blast
qed

theorem no_write_unless_content_changes_witness:
  "snd (handleFileCreate simple_patterns DEFAULT_SETTINGS
          \<lparr>getFullYear = 2024, getMonth = 11, getDate = 29, getHours = 14, getMinutes = 30,
           getSeconds = 52\<rparr> True (js ''a.md'')
          \<lparr>isUpdating = False,
           vault = [js ''a.md'' \<mapsto>
             doc [''---'', ''created: 1'', ''modified: 2024-12-29T14:30:52'', ''---'', ''body'']],
           modifyCalls = []\<rparr>) =
     \<lparr>isUpdating = False,
      vault = [js ''a.md'' \<mapsto>
        doc [''---'', ''created: 1'', ''modified: 2024-12-29T14:30:52'', ''---'', ''body'']],
      modifyCalls = []\<rparr>
   \<and> snd (handleFileModify simple_patterns DEFAULT_SETTINGS
          \<lparr>getFullYear = 2024, getMonth = 11, getDate = 29, getHours = 14, getMinutes = 30,
           getSeconds = 52\<rparr> True (js ''a.md'')
          \<lparr>isUpdating = False,
           vault = [js ''a.md'' \<mapsto>
             doc [''---'', ''created: 1'', ''modified: 2024-12-29T14:30:52'', ''---'', ''body'']],
           modifyCalls = []\<rparr>) =
     \<lparr>isUpdating = False,
      vault = [js ''a.md'' \<mapsto>
        doc [''---'', ''created: 1'', ''modified: 2024-12-29T14:30:52'', ''---'', ''body'']],
      modifyCalls = []\<rparr>
   \<and> modifyCalls (snd (handleFileCreate simple_patterns DEFAULT_SETTINGS
          \<lparr>getFullYear = 2024, getMonth = 11, getDate = 29, getHours = 14, getMinutes = 30,
           getSeconds = 52\<rparr> True (js ''a.md'')
          \<lparr>isUpdating = False, vault = [js ''a.md'' \<mapsto> js ''body''], modifyCalls = []\<rparr>)) \<noteq> []
   \<and> (\<exists>updated.
         addFrontmatter DEFAULT_SETTINGS (js ''body'') (js ''2024-12-29T14:30:52'')
           (js ''2024-12-29T14:30:52'') = Inr updated \<and> updated \<noteq> js ''body'' \<and>
         modifyCalls (snd (handleFileCreate simple_patterns DEFAULT_SETTINGS
          \<lparr>getFullYear = 2024, getMonth = 11, getDate = 29, getHours = 14, getMinutes = 30,
           getSeconds = 52\<rparr> True (js ''a.md'')
          \<lparr>isUpdating = False, vault = [js ''a.md'' \<mapsto> js ''body''], modifyCalls = []\<rparr>))
           = [(js ''a.md'', updated)])
   \<and> modifyCalls (snd (handleFileModify simple_patterns DEFAULT_SETTINGS
          \<lparr>getFullYear = 2024, getMonth = 11, getDate = 29, getHours = 14, getMinutes = 30,
           getSeconds = 52\<rparr> True (js ''a.md'')
          \<lparr>isUpdating = False,
           vault = [js ''a.md'' \<mapsto> doc [''---'', ''created: 1'', ''modified: 2'', ''---'', ''body'']],
           modifyCalls = []\<rparr>)) \<noteq> []
   \<and> (\<exists>updated.
         updateModifiedTime DEFAULT_SETTINGS
           (doc [''---'', ''created: 1'', ''modified: 2'', ''---'', ''body''])
           (js ''2024-12-29T14:30:52'') = Inr updated \<and>
         updated \<noteq> doc [''---'', ''created: 1'', ''modified: 2'', ''---'', ''body''] \<and>
         modifyCalls (snd (handleFileModify simple_patterns DEFAULT_SETTINGS
          \<lparr>getFullYear = 2024, getMonth = 11, getDate = 29, getHours = 14, getMinutes = 30,
           getSeconds = 52\<rparr> True (js ''a.md'')
          \<lparr>isUpdating = False,
           vault = [js ''a.md'' \<mapsto> doc [''---'', ''created: 1'', ''modified: 2'', ''---'', ''body'']],
           modifyCalls = []\<rparr>)) = [(js ''a.md'', updated)])"
proof -
  let ?now = "\<lparr>getFullYear = 2024, getMonth = 11, getDate = 29, getHours = 14,
                getMinutes = 30, getSeconds = 52\<rparr>"
  let ?d = "doc [''---'', ''created: 1'', ''modified: 2024-12-29T14:30:52'', ''---'', ''body'']"
  let ?w = "\<lparr>isUpdating = False, vault = [js ''a.md'' \<mapsto> ?d], modifyCalls = []\<rparr>"
  let ?e = "doc [''---'', ''created: 1'', ''modified: 2'', ''---'', ''body'']"
  let ?w1 = "\<lparr>isUpdating = False, vault = [js ''a.md'' \<mapsto> js ''body''], modifyCalls = []\<rparr>"
  let ?w2 = "\<lparr>isUpdating = False, vault = [js ''a.md'' \<mapsto> ?e], modifyCalls = []\<rparr>"
  have v: "vault ?w (js ''a.md'') = Some ?d"
    by simp
  have c: "addFrontmatter DEFAULT_SETTINGS ?d (formatDate DEFAULT_SETTINGS ?now)
             (formatDate DEFAULT_SETTINGS ?now) = Inr ?d"
    unfolding example_now by (rule example_settled)
  have m: "updateModifiedTime DEFAULT_SETTINGS ?d (formatDate DEFAULT_SETTINGS ?now) = Inr ?d"
    unfolding example_now by (rule example_settled)
  have c1: "modifyCalls (snd (handleFileCreate simple_patterns DEFAULT_SETTINGS ?now True (js ''a.md'') ?w1)) \<noteq> []"
    by (simp add: handleFileCreate_def example_ignore example_now example_stale example_differs write_back_calls)
  have m1: "modifyCalls (snd (handleFileModify simple_patterns DEFAULT_SETTINGS ?now True (js ''a.md'') ?w2)) \<noteq> []"
    by (simp add: handleFileModify_def example_ignore example_now example_stale example_differs write_back_calls)
  from v c m no_write_unless_content_changes
    [of ?w "js ''a.md''" ?d DEFAULT_SETTINGS ?now simple_patterns True]
  have p12: "snd (handleFileCreate simple_patterns DEFAULT_SETTINGS ?now True (js ''a.md'') ?w) = ?w
     \<and> snd (handleFileModify simple_patterns DEFAULT_SETTINGS ?now True (js ''a.md'') ?w) = ?w"
    by blast
  from c1 no_write_unless_content_changes
    [of ?w1 "js ''a.md''" "js ''body''" DEFAULT_SETTINGS ?now simple_patterns True]
  have p3: "\<exists>updated. addFrontmatter DEFAULT_SETTINGS (js ''body'') (js ''2024-12-29T14:30:52'')
           (js ''2024-12-29T14:30:52'') = Inr updated \<and> updated \<noteq> js ''body'' \<and>
         modifyCalls (snd (handleFileCreate simple_patterns DEFAULT_SETTINGS ?now True (js ''a.md'') ?w1))
           = [(js ''a.md'', updated)]"
    by (auto simp: example_now)
  from m1 no_write_unless_content_changes
    [of ?w2 "js ''a.md''" ?e DEFAULT_SETTINGS ?now simple_patterns True]
  have p4: "\<exists>updated. updateModifiedTime DEFAULT_SETTINGS ?e (js ''2024-12-29T14:30:52'') = Inr updated \<and>
         updated \<noteq> ?e \<and>
         modifyCalls (snd (handleFileModify simple_patterns DEFAULT_SETTINGS ?now True (js ''a.md'') ?w2))
           = [(js ''a.md'', updated)]"
    by (auto simp: example_now)
  from p12 c1 p3 m1 p4 show ?thesis by blast
qed

subsection \<open>A write that the host rejects\<close>


lemma task_at_Nil: "task_at i [] = None"
  by (simp add: task_at_def)

lemma task_at_single: "task_at 0 [t] = Some t" "drop_task 0 [t] = []"
  by (simp_all add: task_at_def drop_task_def)






text \<open>
  The handler of the first subsection is the handler that runs alone: on the flag, the
  vault and the calls of \<open>vault.modify\<close> both descriptions agree.
\<close>

lemma handler_alone:
  assumes "in_flight s = []"
  shows "world.truncate
           (run rx st [Create (TFile path (js ''md'')), Elapse 0, ReadDone 0 now, WriteDone 0 ok] s)
           = snd (handleFileCreate rx st now ok path (world.truncate s))"
    and "world.truncate
           (run rx st [Modify (TFile path (js ''md'')), ReadDone 0 now, WriteDone 0 ok] s)
           = snd (handleFileModify rx st now ok path (world.truncate s))"
  using assms
  by (auto simp: begin_handler_def task_at_single after_read_def handleFileModify_def
      handleFileCreate_def write_back_def world.truncate_def task_at_Nil Let_def
      split: sum.splits bool.splits option.splits)




section \<open>Searching a text\<close>

lemma split_at_first_decomp:
  "split_at_first pat s = Some (a, b) \<Longrightarrow> s = a @ pat @ b"
proof (induction s arbitrary: a b)
  case Nil
  then show ?case by (simp split: if_splits)
next
  case (Cons c s)
  show ?case
  proof (cases "prefix pat (c # s)")
    case True
    with Cons.prems show ?thesis by (auto simp: prefix_def)
  next
    case False
    with Cons.prems obtain a0 where "split_at_first pat s = Some (a0, b)" and "a = c # a0"
      by auto
    with Cons.IH show ?thesis by simp
  qed
qed

lemma split_at_first_least:
  "split_at_first pat s = Some (a, b) \<Longrightarrow> s = a' @ pat @ b' \<Longrightarrow> length a \<le> length a'"
proof (induction s arbitrary: a b a')
  case Nil
  then show ?case by (simp split: if_splits)
next
  case (Cons c s)
  show ?case
  proof (cases "prefix pat (c # s)")
    case True
    with Cons.prems(1) show ?thesis by simp
  next
    case False
    with Cons.prems(1) obtain a0 where a0: "split_at_first pat s = Some (a0, b)" "a = c # a0"
      by auto
    from False Cons.prems(2) obtain a1 where a1: "a' = c # a1" "s = a1 @ pat @ b'"
      by (cases a') auto
    from Cons.IH [OF a0(1) a1(2)] a0(2) a1(1) show ?thesis by simp
  qed
qed

lemma split_at_first_None:
  "split_at_first pat s = None \<Longrightarrow> s \<noteq> a @ pat @ b"
proof (induction s arbitrary: a)
  case Nil
  then show ?case by (simp split: if_splits)
next
  case (Cons c s)
  from Cons.prems have np: "\<not> prefix pat (c # s)" and n: "split_at_first pat s = None"
    by (auto split: if_splits)
  show ?case
  proof
    assume eq: "c # s = a @ pat @ b"
    with np obtain a1 where "a = c # a1" "s = a1 @ pat @ b"
      by (cases a) auto
    with Cons.IH [OF n] show False by blast
  qed
qed

lemma split_at_first_iff:
  "split_at_first pat s = Some (a, b) \<longleftrightarrow> first_occurrence pat s a b"
proof
  assume "split_at_first pat s = Some (a, b)"
  then show "first_occurrence pat s a b"
    unfolding first_occurrence_def
    using split_at_first_decomp split_at_first_least by blast
next
  assume f: "first_occurrence pat s a b"
  then have s: "s = a @ pat @ b"
    and least: "\<And>a' b'. s = a' @ pat @ b' \<Longrightarrow> length a \<le> length a'"
    by (auto simp: first_occurrence_def)
  from s split_at_first_None [of pat s a b]
  obtain a0 b0 where r: "split_at_first pat s = Some (a0, b0)"
    by (cases "split_at_first pat s") auto
  from split_at_first_decomp [OF r] have s0: "s = a0 @ pat @ b0" .
  from least [OF s0] split_at_first_least [OF r s] have "length a0 = length a"
    by simp
  with s s0 have "a0 = a" "b0 = b"
    by auto
  with r show "split_at_first pat s = Some (a, b)" by simp
qed

lemma split_at_first_None_iff:
  "split_at_first pat s = None \<longleftrightarrow> (\<forall>a b. s \<noteq> a @ pat @ b)"
proof
  assume "split_at_first pat s = None"
  then show "\<forall>a b. s \<noteq> a @ pat @ b"
    using split_at_first_None by blast
next
  assume n: "\<forall>a b. s \<noteq> a @ pat @ b"
  show "split_at_first pat s = None"
  proof (cases "split_at_first pat s")
    case None
    then show ?thesis .
  next
    case (Some p)
    then obtain a b where "split_at_first pat s = Some (a, b)" by (cases p) auto
    from split_at_first_decomp [OF this] n show ?thesis by blast
  qed
qed

section \<open>Which documents have a frontmatter block\<close>

lemma opening_line:
  "prefix (js ''---'' @ [NL]) content \<longleftrightarrow> (\<exists>t. content = js ''---'' @ [NL] @ t)"
  by (auto simp: prefix_def)

lemma match_frontmatter_Some:
  "match_frontmatter content = Some (fm, rest) \<longleftrightarrow>
     content = js ''---'' @ [NL] @ fm @ [NL] @ js ''---'' @ rest \<and>
     (\<forall>fm' rest'. content = js ''---'' @ [NL] @ fm' @ [NL] @ js ''---'' @ rest'
        \<longrightarrow> length fm \<le> length fm')"
proof (cases "prefix (js ''---'' @ [NL]) content")
  case False
  then show ?thesis
    by (auto simp: match_frontmatter_def prefix_def)
next
  case True
  then obtain t where t: "content = js ''---'' @ [NL] @ t"
    by (auto simp: prefix_def)
  then have d: "drop 4 content = t"
    by (simp add: js_simps)
  have "match_frontmatter content = Some (fm, rest)
          \<longleftrightarrow> first_occurrence (NL # js ''---'') t fm rest"
    using True d by (simp add: match_frontmatter_def split_at_first_iff)
  also have "\<dots> \<longleftrightarrow> content = js ''---'' @ [NL] @ fm @ [NL] @ js ''---'' @ rest \<and>
     (\<forall>fm' rest'. content = js ''---'' @ [NL] @ fm' @ [NL] @ js ''---'' @ rest'
        \<longrightarrow> length fm \<le> length fm')"
    unfolding first_occurrence_def t by simp
  finally show ?thesis .
qed


section \<open>Patterns and the paths they match\<close>

lemma regex_test_iff:
  "regex_test rx r s \<longleftrightarrow> (\<exists>i. i \<le> length s \<and> matches_from rx r s i)"
proof -
  have "(\<exists>i \<in> set [0..<Suc (length s)]. matches_from rx r s i) \<longleftrightarrow>
        (\<exists>i. i \<le> length s \<and> matches_from rx r s i)"
    unfolding set_upt by (auto simp: less_Suc_eq_le)
  then show ?thesis
    unfolding regex_test_def list_ex_iff .
qed

lemma pattern_matches_iff:
  "construct rx p = Inr r \<Longrightarrow> pattern_matches rx p path \<longleftrightarrow> regex_test rx r path"
  by (auto simp: pattern_matches_def regex_test_iff)

lemma some_pattern_all_compile:
  "list_all (compiles rx) ps \<Longrightarrow>
     some_pattern rx path ps = Inr (list_ex (\<lambda>p. pattern_matches rx p path) ps)"
  by (induction ps) (auto simp: compiles_def pattern_matches_iff)

lemma some_pattern_False:
  "some_pattern rx path ps = Inr False \<longleftrightarrow>
     list_all (\<lambda>q. compiles rx q \<and> \<not> pattern_matches rx q path) ps"
  by (induction ps)
    (auto simp: compiles_def pattern_matches_iff split: sum.splits if_splits)

text \<open>
  Every other answer comes from the first pattern that matches or does not compile; the
  patterns in front of it compile and do not match.
\<close>

lemma some_pattern_True:
  "some_pattern rx path ps = Inr True \<longleftrightarrow>
     (\<exists>qs p rest. ps = qs @ p # rest \<and>
        list_all (\<lambda>q. compiles rx q \<and> \<not> pattern_matches rx q path) qs \<and>
        pattern_matches rx p path)"
proof (induction ps)
  case Nil
  then show ?case by simp
next
  case (Cons a ps)
  show ?case
  proof (cases "construct rx a")
    case (Inl x)
    then have "\<not> compiles rx a" "\<not> pattern_matches rx a path"
      by (simp_all add: compiles_def pattern_matches_def)
    then have "\<not> (\<exists>qs p rest. a # ps = qs @ p # rest \<and>
        list_all (\<lambda>q. compiles rx q \<and> \<not> pattern_matches rx q path) qs \<and>
        pattern_matches rx p path)"
      by (auto simp: Cons_eq_append_conv)
    with Inl show ?thesis by simp
  next
    case (Inr r)
    show ?thesis
    proof (cases "regex_test rx r path")
      case True
      with Inr have "pattern_matches rx a path"
        by (simp add: pattern_matches_iff)
      then have "a # ps = [] @ a # ps \<and>
          list_all (\<lambda>q. compiles rx q \<and> \<not> pattern_matches rx q path) [] \<and>
          pattern_matches rx a path"
        by simp
      then have "\<exists>qs p rest. a # ps = qs @ p # rest \<and>
          list_all (\<lambda>q. compiles rx q \<and> \<not> pattern_matches rx q path) qs \<and>
          pattern_matches rx p path"
        by blast
      with Inr True show ?thesis by simp
    next
      case False
      with Inr have a: "compiles rx a" "\<not> pattern_matches rx a path"
        by (simp_all add: compiles_def pattern_matches_iff)
      have "(\<exists>qs p rest. a # ps = qs @ p # rest \<and>
          list_all (\<lambda>q. compiles rx q \<and> \<not> pattern_matches rx q path) qs \<and>
          pattern_matches rx p path) \<longleftrightarrow>
        (\<exists>qs p rest. ps = qs @ p # rest \<and>
          list_all (\<lambda>q. compiles rx q \<and> \<not> pattern_matches rx q path) qs \<and>
          pattern_matches rx p path)"
      proof
        assume "\<exists>qs p rest. a # ps = qs @ p # rest \<and>
          list_all (\<lambda>q. compiles rx q \<and> \<not> pattern_matches rx q path) qs \<and>
          pattern_matches rx p path"
        then obtain qs p rest where e: "a # ps = qs @ p # rest"
          and q: "list_all (\<lambda>q. compiles rx q \<and> \<not> pattern_matches rx q path) qs"
          and p: "pattern_matches rx p path"
          by blast
        from e a p obtain qs' where "qs = a # qs'" "ps = qs' @ p # rest"
          by (cases qs) auto
        with q p show "\<exists>qs p rest. ps = qs @ p # rest \<and>
          list_all (\<lambda>q. compiles rx q \<and> \<not> pattern_matches rx q path) qs \<and>
          pattern_matches rx p path"
          by auto
      next
        assume "\<exists>qs p rest. ps = qs @ p # rest \<and>
          list_all (\<lambda>q. compiles rx q \<and> \<not> pattern_matches rx q path) qs \<and>
          pattern_matches rx p path"
        then obtain qs p rest where "ps = qs @ p # rest"
          and "list_all (\<lambda>q. compiles rx q \<and> \<not> pattern_matches rx q path) qs"
          and "pattern_matches rx p path"
          by blast
        with a have "a # ps = (a # qs) @ p # rest \<and>
          list_all (\<lambda>q. compiles rx q \<and> \<not> pattern_matches rx q path) (a # qs) \<and>
          pattern_matches rx p path"
          by simp
        then show "\<exists>qs p rest. a # ps = qs @ p # rest \<and>
          list_all (\<lambda>q. compiles rx q \<and> \<not> pattern_matches rx q path) qs \<and>
          pattern_matches rx p path"
          by blast
      qed
      with Inr False Cons.IH show ?thesis by simp
    qed
  qed
qed

lemma some_pattern_throws:
  "some_pattern rx path ps = Inl e \<longleftrightarrow>
     (\<exists>qs p rest. ps = qs @ p # rest \<and>
        list_all (\<lambda>q. compiles rx q \<and> \<not> pattern_matches rx q path) qs \<and>
        construct rx p = Inl e)"
proof (induction ps)
  case Nil
  then show ?case by simp
next
  case (Cons a ps)
  show ?case
  proof (cases "construct rx a")
    case (Inl x)
    then have n: "\<not> compiles rx a"
      by (simp add: compiles_def)
    have "(\<exists>qs p rest. a # ps = qs @ p # rest \<and>
        list_all (\<lambda>q. compiles rx q \<and> \<not> pattern_matches rx q path) qs \<and>
        construct rx p = Inl e) \<longleftrightarrow> x = e"
    proof
      assume "\<exists>qs p rest. a # ps = qs @ p # rest \<and>
        list_all (\<lambda>q. compiles rx q \<and> \<not> pattern_matches rx q path) qs \<and>
        construct rx p = Inl e"
      then obtain qs p rest where e: "a # ps = qs @ p # rest"
        and q: "list_all (\<lambda>q. compiles rx q \<and> \<not> pattern_matches rx q path) qs"
        and p: "construct rx p = Inl e"
        by blast
      from e q n have "qs = []"
        by (cases qs) auto
      with e p Inl show "x = e" by simp
    next
      assume "x = e"
      with Inl have "a # ps = [] @ a # ps \<and>
        list_all (\<lambda>q. compiles rx q \<and> \<not> pattern_matches rx q path) [] \<and>
        construct rx a = Inl e"
        by simp
      then show "\<exists>qs p rest. a # ps = qs @ p # rest \<and>
        list_all (\<lambda>q. compiles rx q \<and> \<not> pattern_matches rx q path) qs \<and>
        construct rx p = Inl e"
        by blast
    qed
    with Inl show ?thesis by simp
  next
    case (Inr r)
    show ?thesis
    proof (cases "regex_test rx r path")
      case True
      with Inr have m: "pattern_matches rx a path"
        by (simp add: pattern_matches_iff)
      have "\<not> (\<exists>qs p rest. a # ps = qs @ p # rest \<and>
        list_all (\<lambda>q. compiles rx q \<and> \<not> pattern_matches rx q path) qs \<and>
        construct rx p = Inl e)"
      proof
        assume "\<exists>qs p rest. a # ps = qs @ p # rest \<and>
          list_all (\<lambda>q. compiles rx q \<and> \<not> pattern_matches rx q path) qs \<and>
          construct rx p = Inl e"
        then obtain qs p rest where e: "a # ps = qs @ p # rest"
          and q: "list_all (\<lambda>q. compiles rx q \<and> \<not> pattern_matches rx q path) qs"
          and p: "construct rx p = Inl e"
          by blast
        from e q m have "qs = []"
          by (cases qs) auto
        with e p Inr show False by simp
      qed
      with Inr True show ?thesis by simp
    next
      case False
      with Inr have a: "compiles rx a" "\<not> pattern_matches rx a path"
        by (simp_all add: compiles_def pattern_matches_iff)
      have "(\<exists>qs p rest. a # ps = qs @ p # rest \<and>
          list_all (\<lambda>q. compiles rx q \<and> \<not> pattern_matches rx q path) qs \<and>
          construct rx p = Inl e) \<longleftrightarrow>
        (\<exists>qs p rest. ps = qs @ p # rest \<and>
          list_all (\<lambda>q. compiles rx q \<and> \<not> pattern_matches rx q path) qs \<and>
          construct rx p = Inl e)"
      proof
        assume "\<exists>qs p rest. a # ps = qs @ p # rest \<and>
          list_all (\<lambda>q. compiles rx q \<and> \<not> pattern_matches rx q path) qs \<and>
          construct rx p = Inl e"
        then obtain qs p rest where e: "a # ps = qs @ p # rest"
          and q: "list_all (\<lambda>q. compiles rx q \<and> \<not> pattern_matches rx q path) qs"
          and p: "construct rx p = Inl e"
          by blast
        from e Inr p obtain qs' where "qs = a # qs'" "ps = qs' @ p # rest"
          by (cases qs) auto
        with q p show "\<exists>qs p rest. ps = qs @ p # rest \<and>
          list_all (\<lambda>q. compiles rx q \<and> \<not> pattern_matches rx q path) qs \<and>
          construct rx p = Inl e"
          by auto
      next
        assume "\<exists>qs p rest. ps = qs @ p # rest \<and>
          list_all (\<lambda>q. compiles rx q \<and> \<not> pattern_matches rx q path) qs \<and>
          construct rx p = Inl e"
        then obtain qs p rest where "ps = qs @ p # rest"
          and "list_all (\<lambda>q. compiles rx q \<and> \<not> pattern_matches rx q path) qs"
          and "construct rx p = Inl e"
          by blast
        with a have "a # ps = (a # qs) @ p # rest \<and>
          list_all (\<lambda>q. compiles rx q \<and> \<not> pattern_matches rx q path) (a # qs) \<and>
          construct rx p = Inl e"
          by simp
        then show "\<exists>qs p rest. a # ps = qs @ p # rest \<and>
          list_all (\<lambda>q. compiles rx q \<and> \<not> pattern_matches rx q path) qs \<and>
          construct rx p = Inl e"
          by blast
      qed
      with Inr False Cons.IH show ?thesis by simp
    qed
  qed
qed

subsection \<open>The simple patterns\<close>

text \<open>
  The engine written out for the simple patterns finds a match exactly where the pattern
  describes a part of the text.
\<close>

lemma match_here_iff:
  "(b \<longleftrightarrow> pre = []) \<Longrightarrow>
     match_here b r s \<longleftrightarrow> (\<exists>w t. s = w @ t \<and> matches_in r pre w t)"
proof (induction b r s arbitrary: pre rule: match_here.induct)
  case (1 at_start s)
  then show ?case by simp
next
  case (2 at_start a r)
  then show ?case by simp
next
  case (3 at_start a r c s)
  from 3(1) [of "pre @ [c]"]
  have "atom_matches a c \<Longrightarrow>
          match_here False r s \<longleftrightarrow> (\<exists>w t. s = w @ t \<and> matches_in r (pre @ [c]) w t)"
    by simp
  then show ?case
    by (auto simp: Cons_eq_append_conv)
next
  case (4 at_start a r)
  from 4(1) [of pre] 4(2) show ?case by simp
next
  case (5 at_start a r c s)
  have ih1: "atom_matches a c \<Longrightarrow> match_here False (Many a # r) s \<longleftrightarrow>
      (\<exists>w t. s = w @ t \<and> matches_in (Many a # r) (pre @ [c]) w t)"
    using 5(1) [of "pre @ [c]"] by simp
  have ih2: "\<not> (atom_matches a c \<and> match_here False (Many a # r) s) \<Longrightarrow>
      match_here at_start r (c # s) \<longleftrightarrow> (\<exists>w t. c # s = w @ t \<and> matches_in r pre w t)"
    using 5(2) [of pre] 5(3) by simp
  show ?case
  proof
    assume m: "match_here at_start (Many a # r) (c # s)"
    show "\<exists>w t. c # s = w @ t \<and> matches_in (Many a # r) pre w t"
    proof (cases "atom_matches a c \<and> match_here False (Many a # r) s")
      case True
      with ih1 obtain u w' t where "s = (u @ w') @ t" "list_all (atom_matches a) u"
        "matches_in r ((pre @ [c]) @ u) w' t"
        by auto
      with True have "c # s = ((c # u) @ w') @ t \<and> list_all (atom_matches a) (c # u) \<and>
          matches_in r (pre @ c # u) w' t"
        by simp
      then have "c # s = ((c # u) @ w') @ t \<and> matches_in (Many a # r) pre ((c # u) @ w') t"
        unfolding matches_in.simps by blast
      then show ?thesis by blast
    next
      case False
      with m have "match_here at_start r (c # s)"
        by auto
      with ih2 False obtain w t where wt: "c # s = w @ t" "matches_in r pre w t"
        by auto
      then have "w = [] @ w \<and> list_all (atom_matches a) [] \<and> matches_in r (pre @ []) w t"
        by simp
      then have "matches_in (Many a # r) pre w t"
        unfolding matches_in.simps by blast
      with wt show ?thesis by blast
    qed
  next
    assume "\<exists>w t. c # s = w @ t \<and> matches_in (Many a # r) pre w t"
    then obtain u w' t where eq: "c # s = (u @ w') @ t" and u: "list_all (atom_matches a) u"
      and w': "matches_in r (pre @ u) w' t"
      by auto
    show "match_here at_start (Many a # r) (c # s)"
    proof (cases "atom_matches a c \<and> match_here False (Many a # r) s")
      case True
      then show ?thesis by simp
    next
      case False
      show ?thesis
      proof (cases u)
        case Nil
        with eq w' have "\<exists>w t. c # s = w @ t \<and> matches_in r pre w t"
          by auto
        with ih2 False have "match_here at_start r (c # s)" by simp
        then show ?thesis by simp
      next
        case (Cons c' u')
        with eq u have c: "c' = c" "atom_matches a c" "s = (u' @ w') @ t"
          "list_all (atom_matches a) u'"
          by simp_all
        from w' Cons c have "matches_in r ((pre @ [c]) @ u') w' t"
          by simp
        with c have "matches_in (Many a # r) (pre @ [c]) (u' @ w') t"
          unfolding matches_in.simps by blast
        with c ih1 have "match_here False (Many a # r) s"
          by blast
        with c False show ?thesis by simp
      qed
    qed
  qed
next
  case (6 at_start r s)
  from 6(1) [of pre] 6(2) show ?case by auto
next
  case (7 at_start r s)
  from 7(1) [of pre] 7(2) show ?case by auto
qed

lemma simple_patterns_test: "regex_test simple_patterns r s \<longleftrightarrow> matches_anywhere r s"
proof
  assume "regex_test simple_patterns r s"
  then obtain i where i: "i \<le> length s" "match_here (i = 0) r (drop i s)"
    by (auto simp: regex_test_iff simple_patterns_def)
  from i(1) have "(i = 0) \<longleftrightarrow> take i s = []"
    by auto
  from i(2) [unfolded match_here_iff [OF this]]
  obtain w t where "drop i s = w @ t" "matches_in r (take i s) w t"
    by blast
  then have "s = take i s @ w @ t \<and> matches_in r (take i s) w t"
    by (metis append_take_drop_id)
  then show "matches_anywhere r s"
    unfolding matches_anywhere_def by blast
next
  assume "matches_anywhere r s"
  then obtain pre w post where s: "s = pre @ w @ post" and w: "matches_in r pre w post"
    by (auto simp: matches_anywhere_def)
  have "(length pre = 0) \<longleftrightarrow> pre = []"
    by simp
  from match_here_iff [OF this, of r "w @ post"] w
  have "match_here (length pre = 0) r (drop (length pre) s)"
    unfolding s by auto
  moreover from s have "length pre \<le> length s"
    by simp
  ultimately show "regex_test simple_patterns r s"
    unfolding regex_test_iff by (auto simp: simple_patterns_def)
qed

text \<open>
  Claim C8, as amended. The statement holds for every engine, so for the host's. When
  every pattern of the list compiles, \<open>shouldIgnoreFile\<close> returns true if and only if
  some pattern of the list, compiled, matches from some index of the path on. For any
  list, it returns true exactly when some pattern matches and every pattern in front of it
  compiles and does not match; it returns false exactly when every pattern compiles and
  none matches; and it throws exactly when some pattern does not compile and every pattern
  in front of it compiles and does not match, and then it throws the error of the
  constructor. The two examples of the specification hold.
\<close>

theorem shouldIgnoreFile_some_pattern_matches:
  "(list_all (compiles rx) (ignorePatterns st) \<longrightarrow>
      shouldIgnoreFile rx st path =
        Inr (list_ex (\<lambda>p. pattern_matches rx p path) (ignorePatterns st)))
   \<and> (shouldIgnoreFile rx st path = Inr True \<longleftrightarrow>
      (\<exists>qs p rest. ignorePatterns st = qs @ p # rest \<and>
         list_all (\<lambda>q. compiles rx q \<and> \<not> pattern_matches rx q path) qs \<and>
         pattern_matches rx p path))
   \<and> (shouldIgnoreFile rx st path = Inr False \<longleftrightarrow>
      list_all (\<lambda>q. compiles rx q \<and> \<not> pattern_matches rx q path) (ignorePatterns st))
   \<and> (shouldIgnoreFile rx st path = Inl e \<longleftrightarrow>
      (\<exists>qs p rest. ignorePatterns st = qs @ p # rest \<and>
         list_all (\<lambda>q. compiles rx q \<and> \<not> pattern_matches rx q path) qs \<and>
         construct rx p = Inl e))
   \<and> shouldIgnoreFile simple_patterns (DEFAULT_SETTINGS\<lparr>ignorePatterns := [js ''templates/.*'']\<rparr>)
       (js ''templates/foo.md'') = Inr True
   \<and> shouldIgnoreFile simple_patterns (DEFAULT_SETTINGS\<lparr>ignorePatterns := [js ''templates/.*'']\<rparr>)
       (js ''notes/foo.md'') = Inr False"
proof (intro conjI impI)
  assume "list_all (compiles rx) (ignorePatterns st)"
  then show "shouldIgnoreFile rx st path =
      Inr (list_ex (\<lambda>p. pattern_matches rx p path) (ignorePatterns st))"
    by (simp add: shouldIgnoreFile_def some_pattern_all_compile)
next
  show "shouldIgnoreFile rx st path = Inr True \<longleftrightarrow>
      (\<exists>qs p rest. ignorePatterns st = qs @ p # rest \<and>
         list_all (\<lambda>q. compiles rx q \<and> \<not> pattern_matches rx q path) qs \<and>
         pattern_matches rx p path)"
    unfolding shouldIgnoreFile_def by (rule some_pattern_True)
  show "shouldIgnoreFile rx st path = Inr False \<longleftrightarrow>
      list_all (\<lambda>q. compiles rx q \<and> \<not> pattern_matches rx q path) (ignorePatterns st)"
    unfolding shouldIgnoreFile_def by (rule some_pattern_False)
  show "shouldIgnoreFile rx st path = Inl e \<longleftrightarrow>
      (\<exists>qs p rest. ignorePatterns st = qs @ p # rest \<and>
         list_all (\<lambda>q. compiles rx q \<and> \<not> pattern_matches rx q path) qs \<and>
         construct rx p = Inl e)"
    unfolding shouldIgnoreFile_def by (rule some_pattern_throws)
  show "shouldIgnoreFile simple_patterns (DEFAULT_SETTINGS\<lparr>ignorePatterns := [js ''templates/.*'']\<rparr>)
       (js ''templates/foo.md'') = Inr True"
    by code_simp
  show "shouldIgnoreFile simple_patterns (DEFAULT_SETTINGS\<lparr>ignorePatterns := [js ''templates/.*'']\<rparr>)
       (js ''notes/foo.md'') = Inr False"
    by code_simp
qed

lemma example_pattern:
  "construct simple_patterns (js ''templates/.*'') =
     Inr (map (Once \<circ> Lit) (js ''templates/'') @ [Many AnyChar])"
  by code_simp

theorem shouldIgnoreFile_some_pattern_matches_witness:
  "list_all (compiles simple_patterns) [js ''templates/.*'']
   \<and> shouldIgnoreFile simple_patterns (DEFAULT_SETTINGS\<lparr>ignorePatterns := [js ''templates/.*'']\<rparr>)
       (js ''templates/foo.md'') =
       Inr (list_ex (\<lambda>p. pattern_matches simple_patterns p (js ''templates/foo.md''))
              [js ''templates/.*''])
   \<and> pattern_matches simple_patterns (js ''templates/.*'') (js ''templates/foo.md'')
   \<and> \<not> pattern_matches simple_patterns (js ''templates/.*'') (js ''notes/foo.md'')
   \<and> (\<exists>qs p rest. [js ''a'', js ''*'', js ''b''] = qs @ p # rest \<and>
         list_all (\<lambda>q. compiles simple_patterns q \<and> \<not> pattern_matches simple_patterns q (js ''b'')) qs \<and>
         construct simple_patterns p = Inl SyntaxError)"
proof -
  let ?st = "DEFAULT_SETTINGS\<lparr>ignorePatterns := [js ''templates/.*'']\<rparr>"
  let ?st' = "DEFAULT_SETTINGS\<lparr>ignorePatterns := [js ''a'', js ''*'', js ''b'']\<rparr>"
  have ip: "ignorePatterns ?st = [js ''templates/.*'']"
    by simp
  have ip': "ignorePatterns ?st' = [js ''a'', js ''*'', js ''b'']"
    by simp
  have c: "list_all (compiles simple_patterns) (ignorePatterns ?st)"
    by (simp add: compiles_def example_pattern)
  have t: "shouldIgnoreFile simple_patterns ?st (js ''templates/foo.md'') = Inr True"
    by code_simp
  have f: "shouldIgnoreFile simple_patterns ?st (js ''notes/foo.md'') = Inr False"
    by code_simp
  have e: "shouldIgnoreFile simple_patterns ?st' (js ''b'') = Inl SyntaxError"
    by code_simp
  from c shouldIgnoreFile_some_pattern_matches [of simple_patterns ?st "js ''templates/foo.md''"]
  have "shouldIgnoreFile simple_patterns ?st (js ''templates/foo.md'') =
       Inr (list_ex (\<lambda>p. pattern_matches simple_patterns p (js ''templates/foo.md''))
              (ignorePatterns ?st))"
    by blast
  then have 0: "shouldIgnoreFile simple_patterns ?st (js ''templates/foo.md'') =
       Inr (list_ex (\<lambda>p. pattern_matches simple_patterns p (js ''templates/foo.md''))
              [js ''templates/.*''])"
    unfolding ip .
  from t 0 have 1: "pattern_matches simple_patterns (js ''templates/.*'') (js ''templates/foo.md'')"
    by simp
  from f shouldIgnoreFile_some_pattern_matches [of simple_patterns ?st "js ''notes/foo.md''"]
  have "list_all (\<lambda>q. compiles simple_patterns q \<and>
            \<not> pattern_matches simple_patterns q (js ''notes/foo.md'')) (ignorePatterns ?st)"
    by blast
  then have 2: "\<not> pattern_matches simple_patterns (js ''templates/.*'') (js ''notes/foo.md'')"
    unfolding ip by simp
  from e shouldIgnoreFile_some_pattern_matches [of simple_patterns ?st' "js ''b''" SyntaxError]
  have "\<exists>qs p rest. ignorePatterns ?st' = qs @ p # rest \<and>
         list_all (\<lambda>q. compiles simple_patterns q \<and> \<not> pattern_matches simple_patterns q (js ''b'')) qs \<and>
         construct simple_patterns p = Inl SyntaxError"
    by blast
  then have 3: "\<exists>qs p rest. [js ''a'', js ''*'', js ''b''] = qs @ p # rest \<and>
         list_all (\<lambda>q. compiles simple_patterns q \<and> \<not> pattern_matches simple_patterns q (js ''b'')) qs \<and>
         construct simple_patterns p = Inl SyntaxError"
    unfolding ip' .
  from c [unfolded ip] 0 1 2 3 show ?thesis by blast
qed

text \<open>
  The patterns of the plugin's documentation, \<open>templates/.*\<close>, \<open>daily/.*\<close> and
  \<open>\.excalidraw\.md$\<close>: a match may begin anywhere in the path, and only an assertion
  ties it to the start or the end.
\<close>

lemma example_ignore_patterns:
  "shouldIgnoreFile simple_patterns
     (DEFAULT_SETTINGS\<lparr>ignorePatterns :=
        [js ''templates/.*'', js ''daily/.*'', 0x5C # js ''.excalidraw'' @ 0x5C # js ''.md$'']\<rparr>)
     (js ''my/templates/a.md'') = Inr True"
  "shouldIgnoreFile simple_patterns
     (DEFAULT_SETTINGS\<lparr>ignorePatterns :=
        [js ''templates/.*'', js ''daily/.*'', 0x5C # js ''.excalidraw'' @ 0x5C # js ''.md$'']\<rparr>)
     (js ''plan.excalidraw.md'') = Inr True"
  "shouldIgnoreFile simple_patterns
     (DEFAULT_SETTINGS\<lparr>ignorePatterns :=
        [js ''templates/.*'', js ''daily/.*'', 0x5C # js ''.excalidraw'' @ 0x5C # js ''.md$'']\<rparr>)
     (js ''plan.excalidraw.md.bak'') = Inr False"
  "shouldIgnoreFile simple_patterns
     (DEFAULT_SETTINGS\<lparr>ignorePatterns := [js ''^templates/'']\<rparr>)
     (js ''my/templates/a.md'') = Inr False"
  "shouldIgnoreFile simple_patterns
     (DEFAULT_SETTINGS\<lparr>ignorePatterns := [js ''^templates/'']\<rparr>)
     (js ''templates/a.md'') = Inr True"
  "shouldIgnoreFile simple_patterns
     (DEFAULT_SETTINGS\<lparr>ignorePatterns := [js ''^*'']\<rparr>) (js ''a'') = Inl SyntaxError"
  by code_simp+

text \<open>
  The claim as stated fails for a list with a pattern that does not compile in front of
  one that matches: \<open>new RegExp("*")\<close> throws, and the pattern \<open>a\<close> behind it, which
  matches the path \<open>a\<close> from the index 0 on, is never tried.
\<close>

theorem shouldIgnoreFile_counterexample:
  "shouldIgnoreFile simple_patterns (DEFAULT_SETTINGS\<lparr>ignorePatterns := [js ''*'', js ''a'']\<rparr>)
     (js ''a'') = Inl SyntaxError
   \<and> construct simple_patterns (js ''a'') = Inr [Once (Lit 0x61)]
   \<and> matches_from simple_patterns [Once (Lit 0x61)] (js ''a'') 0"
  by code_simp

section \<open>Replacement templates without a dollar sign\<close>

lemma get_substitution_verbatim:
  "DOLLAR \<notin> set t \<Longrightarrow> get_substitution matched str pos caps t = t"
  by (induction matched str pos caps t rule: get_substitution.induct) auto

lemma replace_string_verbatim:
  "DOLLAR \<notin> set v \<Longrightarrow>
     replace_string tok v s =
       (case split_at_first tok s of None \<Rightarrow> s | Some (a, b) \<Rightarrow> a @ v @ b)"
  by (simp add: replace_string_def get_substitution_verbatim split: option.splits)

lemma replaces_first_iff:
  assumes "DOLLAR \<notin> set v"
  shows "replaces_first tok v s s' \<longleftrightarrow> s' = replace_string tok v s"
proof (cases "split_at_first tok s")
  case None
  then have "\<forall>a b. s \<noteq> a @ tok @ b"
    by (simp add: split_at_first_None_iff)
  then have "replaces_first tok v s s' \<longleftrightarrow> s' = s"
    by (auto simp: replaces_first_def first_occurrence_def)
  with None assms show ?thesis
    by (simp add: replace_string_verbatim)
next
  case (Some p)
  then obtain a b where ab: "split_at_first tok s = Some (a, b)"
    by (cases p) auto
  then have f: "first_occurrence tok s a b"
    by (simp add: split_at_first_iff)
  have u: "a' = a \<and> b' = b" if "first_occurrence tok s a' b'" for a' b'
    using that ab by (simp add: split_at_first_iff [symmetric])
  from f have "s = a @ tok @ b"
    by (simp add: first_occurrence_def)
  with f u have "replaces_first tok v s s' \<longleftrightarrow> s' = a @ v @ b"
    unfolding replaces_first_def by blast
  with ab assms show ?thesis
    by (simp add: replace_string_verbatim)
qed

section \<open>Digits\<close>

lemma digit_unit_cases:
  "d < 10 \<Longrightarrow> digit_unit d \<in> set (js ''0123456789'')"
proof -
  assume "d < 10"
  then have "d \<in> {0, 1, 2, 3, 4, 5, 6, 7, 8, 9}"
    by auto
  then show ?thesis
    by (auto simp: digit_unit_def js_simps)
qed

lemma digit_unit_no_dollar: "d < 10 \<Longrightarrow> digit_unit d \<noteq> DOLLAR"
  using digit_unit_cases [of d] by (auto simp: js_simps)

lemma nat_digits_no_dollar: "DOLLAR \<notin> set (nat_digits n)"
proof (induction n rule: nat_digits.induct)
  case (1 n)
  show ?case
  proof (cases "n < 10")
    case True
    then show ?thesis
      by (subst nat_digits.simps) (simp add: digit_unit_no_dollar)
  next
    case False
    with 1 have "DOLLAR \<notin> set (nat_digits (n div 10))" by simp
    moreover have "digit_unit (n mod 10) \<noteq> DOLLAR"
      by (rule digit_unit_no_dollar) simp
    ultimately show ?thesis
      using False by (subst nat_digits.simps) simp
  qed
qed

lemma toString_no_dollar: "DOLLAR \<notin> set (toString i)"
  by (simp add: toString_def nat_digits_no_dollar)

lemma zero_padded_no_dollar: "DOLLAR \<notin> set (zero_padded width i)"
proof -
  have "set (take k (concat (replicate k (js ''0'')))) \<subseteq> {0x30}" for k
    by (auto simp: js_simps dest!: in_set_takeD)
  then have "DOLLAR \<notin> set (take k (concat (replicate k (js ''0''))))" for k
    by fastforce
  then show ?thesis
    by (simp add: zero_padded_def padStart_def toString_no_dollar)
qed

lemma formatDate_chain:
  "formatDate st d =
     replace_string (js ''ss'') (zero_padded 2 (getSeconds d))
      (replace_string (js ''mm'') (zero_padded 2 (getMinutes d))
        (replace_string (js ''HH'') (zero_padded 2 (getHours d))
          (replace_string (js ''dd'') (zero_padded 2 (getDate d))
            (replace_string (js ''MM'') (zero_padded 2 (getMonth d + 1))
              (replace_string (js ''yyyy'') (toString (getFullYear d)) (dateFormat st))))))"
  by (simp add: formatDate_def zero_padded_def Let_def)

text \<open>
  For every date and every template, the result of \<open>formatDate\<close> is what six
  replacements give when made one after the other, each on the result of the one before:
  the first occurrence of \<open>yyyy\<close> by the year as \<open>toString\<close> writes it, then the first
  occurrence of \<open>MM\<close> by the month (counted from 1), of \<open>dd\<close> by the day, of \<open>HH\<close>
  by the hours, of \<open>mm\<close> by the minutes and of \<open>ss\<close> by the seconds, each of these
  five padded with zeros to two digits. Everything else of the template stays as it is
  written.
\<close>

lemma formatDate_substitution_chain:
  "substitution_chain
      [(js ''yyyy'', toString (getFullYear d)),
       (js ''MM'', zero_padded 2 (getMonth d + 1)),
       (js ''dd'', zero_padded 2 (getDate d)),
       (js ''HH'', zero_padded 2 (getHours d)),
       (js ''mm'', zero_padded 2 (getMinutes d)),
       (js ''ss'', zero_padded 2 (getSeconds d))]
      (dateFormat st) s' \<longleftrightarrow> s' = formatDate st d"
  by (simp add: formatDate_chain replaces_first_iff toString_no_dollar zero_padded_no_dollar)

text \<open>
  A year from 1000 on has four digits or more as it stands, so that padding it to four
  digits changes nothing: for these years the result is the one with every component
  padded.
\<close>

lemma nat_digits_length: "10 ^ k \<le> n \<Longrightarrow> k < length (nat_digits n)"
proof (induction k arbitrary: n)
  case 0
  show ?case
    by (subst nat_digits.simps) simp
next
  case (Suc k)
  then have p: "10 * 10 ^ k \<le> n"
    by simp
  then have "10 ^ k \<le> n div 10"
    by (simp add: less_eq_div_iff_mult_less_eq mult.commute)
  moreover have "(1::nat) \<le> 10 ^ k"
    by simp
  with p have "\<not> n < 10"
    by linarith
  ultimately show ?case
    using Suc.IH [of "n div 10"] by (subst nat_digits.simps) simp
qed

lemma padded_year: "1000 \<le> y \<Longrightarrow> zero_padded 4 y = toString y"
proof -
  assume y: "1000 \<le> y"
  then have "10 ^ 3 \<le> nat y"
    by simp
  then have "3 < length (nat_digits (nat y))"
    by (rule nat_digits_length)
  with y show ?thesis
    by (simp add: zero_padded_def padStart_def toString_def)
qed

lemma formatDate_padded:
  assumes "1000 \<le> getFullYear d"
  shows "substitution_chain
      [(js ''yyyy'', zero_padded 4 (getFullYear d)),
       (js ''MM'', zero_padded 2 (getMonth d + 1)),
       (js ''dd'', zero_padded 2 (getDate d)),
       (js ''HH'', zero_padded 2 (getHours d)),
       (js ''mm'', zero_padded 2 (getMinutes d)),
       (js ''ss'', zero_padded 2 (getSeconds d))]
      (dateFormat st) s' \<longleftrightarrow> s' = formatDate st d"
  unfolding padded_year [OF assms] by (rule formatDate_substitution_chain)


section \<open>Texts cut at a separator\<close>

text \<open>
  A character that does not occur in a pattern cuts every search for the pattern in two:
  no occurrence reaches across it.
\<close>

lemma prefix_separator:
  assumes "c \<notin> set d"
  shows "prefix d (x @ c # z) \<longleftrightarrow> prefix d x"
proof
  assume "prefix d (x @ c # z)"
  then consider "prefix d x" | us where "d = x @ us" "prefix us (c # z)"
    unfolding prefix_append by blast
  then show "prefix d x"
  proof cases
    case 1
    then show ?thesis .
  next
    case 2
    show ?thesis
    proof (cases us)
      case Nil
      with 2 show ?thesis by simp
    next
      case (Cons u us')
      with 2 have "c \<in> set d" by simp
      with assms show ?thesis by simp
    qed
  qed
next
  assume "prefix d x"
  then show "prefix d (x @ c # z)"
    by (rule prefix_prefix)
qed

lemma prefix_behind_itself:
  "prefix lit (u @ lit @ q) \<longleftrightarrow> prefix lit (u @ lit)"
proof
  assume "prefix lit (u @ lit @ q)"
  then have "prefix lit ((u @ lit) @ q)" by simp
  then consider "prefix lit (u @ lit)" | us where "lit = (u @ lit) @ us"
    unfolding prefix_append by blast
  then show "prefix lit (u @ lit)"
  proof cases
    case 1
    then show ?thesis .
  next
    case 2
    then have "length lit = length u + length lit + length us"
      by (metis length_append add.assoc)
    then have "u = []" by simp
    then show ?thesis by simp
  qed
next
  assume "prefix lit (u @ lit)"
  then have "prefix lit ((u @ lit) @ q)"
    by (rule prefix_prefix)
  then show "prefix lit (u @ lit @ q)" by simp
qed

lemma sublist_separator:
  "c \<notin> set p \<Longrightarrow> sublist p (x @ c # z) \<longleftrightarrow> sublist p x \<or> sublist p z"
proof (induction x)
  case Nil
  show ?case
  proof (cases p)
    case Nil
    then show ?thesis by simp
  next
    case (Cons e p')
    with Nil.prems have "\<not> prefix p (c # z)" and "p \<noteq> []" by auto
    then show ?thesis
      by (simp add: sublist_Cons_right)
  qed
next
  case (Cons e x)
  from Cons.prems have "prefix p (e # x @ c # z) \<longleftrightarrow> prefix p (e # x)"
    using prefix_separator [of c p "e # x" z] by simp
  with Cons show ?case
    by (simp add: sublist_Cons_right)
qed

lemma sublist_at_head:
  "c \<notin> set d \<Longrightarrow>
     sublist (c # d) (x @ c # z) \<longleftrightarrow> sublist (c # d) x \<or> prefix d z \<or> sublist (c # d) z"
proof (induction x)
  case Nil
  then show ?case
    by (simp add: sublist_Cons_right)
next
  case (Cons e x)
  from Cons.prems have "prefix d (x @ c # z) \<longleftrightarrow> prefix d x"
    by (rule prefix_separator)
  with Cons show ?case
    by (simp add: sublist_Cons_right)
qed

lemma sublist_needs_head:
  "c \<notin> set m \<Longrightarrow> sublist (c # d) (m @ z) \<longleftrightarrow> sublist (c # d) z"
  by (induction m) (simp_all add: sublist_Cons_right)


lemma split_at_first_fresh:
  "c \<notin> set d \<Longrightarrow> \<not> sublist (c # d) a \<Longrightarrow>
     split_at_first (c # d) (a @ c # d @ b) = Some (a, b)"
proof (induction a)
  case Nil
  then show ?case by simp
next
  case (Cons e a)
  from Cons.prems have n: "\<not> prefix (c # d) (e # a)" and s: "\<not> sublist (c # d) a"
    by (simp_all add: sublist_Cons_right)
  from Cons.prems(1) have "prefix d (a @ c # d @ b) \<longleftrightarrow> prefix d a"
    by (rule prefix_separator)
  with n have "\<not> prefix (c # d) (e # a @ c # d @ b)"
    by simp
  with Cons.IH [OF Cons.prems(1) s] show ?case
    by simp
qed

lemma split_at_first_no_earlier:
  assumes "split_at_first p (a @ p @ b) = Some (a, b)" and "p \<noteq> []"
  shows "\<not> sublist p a"
proof
  assume "sublist p a"
  then obtain x y where a: "a = x @ p @ y"
    by (auto simp: sublist_def)
  then have "a @ p @ b = x @ p @ (y @ p @ b)"
    by simp
  from split_at_first_least [OF assms(1) this] a assms(2) show False
    by simp
qed


section \<open>Searching at the start of a line\<close>

lemma find_line_start_decomp:
  "find_line_start lit b s = Some (p, q) \<Longrightarrow> s = p @ lit @ q"
proof (induction s arbitrary: b p q)
  case Nil
  then show ?case by (simp split: if_splits)
next
  case (Cons c s)
  show ?case
  proof (cases "b \<and> prefix lit (c # s)")
    case True
    with Cons.prems show ?thesis by (auto simp: prefix_def)
  next
    case False
    with Cons.prems obtain p0 where
      "find_line_start lit (is_line_terminator c) s = Some (p0, q)" "p = c # p0"
      by auto
    with Cons.IH show ?thesis by simp
  qed
qed

text \<open>Where the first match stands depends on the text up to its end only.\<close>

lemma find_line_start_stable:
  "lit \<noteq> [] \<Longrightarrow> find_line_start lit b (p @ lit @ q) = Some (p, q) \<Longrightarrow>
     find_line_start lit b (p @ lit @ x) = Some (p, x)"
proof (induction p arbitrary: b)
  case Nil
  then obtain c l where l: "lit = c # l" by (cases lit) auto
  with Nil.prems(2) have "b"
    by (auto split: if_splits)
  with l show ?case by simp
next
  case (Cons c p)
  have same: "prefix lit (c # p @ lit @ x) \<longleftrightarrow> prefix lit (c # p @ lit @ q)"
    using prefix_behind_itself [of lit "c # p" x] prefix_behind_itself [of lit "c # p" q]
    by simp
  from Cons.prems(2) have no: "\<not> (b \<and> prefix lit (c # p @ lit @ q))"
    by (auto split: if_splits)
  with Cons.prems(2) have "find_line_start lit (is_line_terminator c) (p @ lit @ q) = Some (p, q)"
    by auto
  from Cons.IH [OF Cons.prems(1) this] no same show ?case
    by simp
qed

text \<open>A character that is not in the literal cuts the search in two.\<close>

lemma find_line_start_separator:
  "lit \<noteq> [] \<Longrightarrow> c \<notin> set lit \<Longrightarrow>
     find_line_start lit b (x @ c # z) =
       (case find_line_start lit b x of
          Some (a, r) \<Rightarrow> Some (a, r @ c # z)
        | None \<Rightarrow> map_option (\<lambda>(a, r). (x @ c # a, r))
                   (find_line_start lit (is_line_terminator c) z))"
proof (induction x arbitrary: b)
  case Nil
  then have "\<not> prefix lit (c # z)"
    by (cases lit) auto
  with Nil show ?case
    by (simp add: option.map_comp comp_def split_def)
next
  case (Cons e x)
  have same: "prefix lit (e # x @ c # z) \<longleftrightarrow> prefix lit (e # x)"
    using prefix_separator [OF Cons.prems(2), of "e # x" z] by simp
  show ?case
  proof (cases "b \<and> prefix lit (e # x)")
    case True
    then have "length lit \<le> length (e # x)"
      by (auto dest: prefix_length_le)
    then have "drop (length lit) ((e # x) @ c # z) = drop (length lit) (e # x) @ c # z"
      by (simp only: drop_append) simp
    then have "drop (length lit) (e # x @ c # z) = drop (length lit) (e # x) @ c # z"
      by simp
    with True same show ?thesis
      by simp
  next
    case False
    with same Cons.IH [OF Cons.prems, of "is_line_terminator e"] show ?thesis
      by (auto simp: option.map_comp comp_def split_def split: option.splits)
  qed
qed

lemma find_line_start_inside_line:
  "list_all (\<lambda>c. \<not> is_line_terminator c) s \<Longrightarrow> find_line_start lit False s = None"
  by (induction s) simp_all

lemma find_line_start_one_line:
  "lit \<noteq> [] \<Longrightarrow> list_all (\<lambda>c. \<not> is_line_terminator c) s \<Longrightarrow> \<not> prefix lit s \<Longrightarrow>
     find_line_start lit True s = None"
  by (cases s) (simp_all add: find_line_start_inside_line)

lemma rest_of_line:
  assumes "list_all (\<lambda>c. \<not> is_line_terminator c) m"
  shows "takeWhile (\<lambda>c. \<not> is_line_terminator c)
           (m @ dropWhile (\<lambda>c. \<not> is_line_terminator c) post) = m"
    and "dropWhile (\<lambda>c. \<not> is_line_terminator c)
           (m @ dropWhile (\<lambda>c. \<not> is_line_terminator c) post) =
         dropWhile (\<lambda>c. \<not> is_line_terminator c) post"
proof -
  have t: "takeWhile P (dropWhile P xs) = []" for P :: "16 word \<Rightarrow> bool" and xs
    by (induction xs) simp_all
  from assms have m: "\<And>c. c \<in> set m \<Longrightarrow> \<not> is_line_terminator c"
    by (simp add: list_all_iff)
  from m show "takeWhile (\<lambda>c. \<not> is_line_terminator c)
           (m @ dropWhile (\<lambda>c. \<not> is_line_terminator c) post) = m"
    by (simp add: takeWhile_append2 t)
  from m show "dropWhile (\<lambda>c. \<not> is_line_terminator c)
           (m @ dropWhile (\<lambda>c. \<not> is_line_terminator c) post) =
         dropWhile (\<lambda>c. \<not> is_line_terminator c) post"
    by (simp add: dropWhile_append2)
qed

section \<open>The editor on texts without a dollar sign\<close>

lemma simple_key_pattern: "simple_key k \<Longrightarrow> key_pattern k = Inr (k @ js '':'')"
  by (auto simp: simple_key_def key_pattern_def list_all_iff)

lemma simple_key_no_dollar: "simple_key k \<Longrightarrow> DOLLAR \<notin> set k"
  by (auto simp: simple_key_def list_all_iff syntax_character_def)

lemma simple_key_no_colon: "simple_key k \<Longrightarrow> 0x3A \<notin> set k"
  by (auto simp: simple_key_def list_all_iff)

lemma simple_key_one_line:
  "simple_key k \<Longrightarrow> list_all (\<lambda>c. \<not> is_line_terminator c) (k @ js '':'')"
  by (auto simp: simple_key_def list_all_iff js_simps is_line_terminator_def)

lemma simple_key_no_newline: "simple_key k \<Longrightarrow> NL \<notin> set (k @ js '':'')"
  by (auto simp: simple_key_def list_all_iff js_simps is_line_terminator_def)

lemma simple_key_clash:
  assumes "simple_key ck" "simple_key mk" "prefix (mk @ js '':'') (ck @ js '':'' @ z)"
  shows "mk = ck"
proof -
  from assms(3) have p: "prefix (mk @ [0x3A]) (ck @ 0x3A # z)"
    by (simp add: js_simps)
  then have "prefix mk (ck @ 0x3A # z)"
    by (rule append_prefixD)
  with simple_key_no_colon [OF assms(2)] have "prefix mk ck"
    by (simp add: prefix_separator)
  then obtain w where w: "ck = mk @ w"
    by (auto simp: prefix_def)
  with p have "prefix [0x3A] (w @ 0x3A # z)"
    by simp
  with w simple_key_no_colon [OF assms(1)] have "w = []"
    by (cases w) auto
  with w show ?thesis by simp
qed

lemma get_substitution_group:
  "DOLLAR \<notin> set v \<Longrightarrow>
     get_substitution matched str pos [lit] (js ''$1 '' @ v) = lit @ js '' '' @ v"
  by (simp add: js_simps is_digit_def digit_value_def get_substitution_verbatim)

lemma replace_frontmatter_verbatim:
  "DOLLAR \<notin> set fm2 \<Longrightarrow>
     replace_frontmatter content fm rest (js ''---'' @ [NL] @ fm2 @ [NL] @ js ''---'') =
       js ''---'' @ [NL] @ fm2 @ [NL] @ js ''---'' @ rest"
  by (simp add: replace_frontmatter_def get_substitution_verbatim js_simps)

lemma replace_line_plain:
  "DOLLAR \<notin> set v \<Longrightarrow>
     replace_line lit (js ''$1 '' @ v) s =
       (case find_line_start lit True s of
          None \<Rightarrow> s
        | Some (pre, post) \<Rightarrow>
            pre @ lit @ js '' '' @ v @ dropWhile (\<lambda>c. \<not> is_line_terminator c) post)"
  by (simp add: replace_line_def get_substitution_group split: option.splits)

lemma value_facts:
  assumes "list_all (\<lambda>c. c \<noteq> DOLLAR \<and> \<not> is_line_terminator c) v"
  shows "DOLLAR \<notin> set v" and "NL \<notin> set v"
    and "list_all (\<lambda>c. \<not> is_line_terminator c) (js '' '' @ v)"
  using assms by (auto simp: list_all_iff js_simps is_line_terminator_def)

lemma replaced_line_found:
  assumes "lit \<noteq> []" "find_line_start lit True fm = Some (pre, post)"
  shows "find_line_start lit True (pre @ lit @ x) = Some (pre, x)"
proof -
  from find_line_start_decomp [OF assms(2)] have "fm = pre @ lit @ post" .
  with assms(2) have "find_line_start lit True (pre @ lit @ post) = Some (pre, post)"
    by simp
  from find_line_start_stable [OF assms(1) this] show ?thesis .
qed

lemma appended_line_found:
  assumes "find_line_start lit True fm = None" "lit \<noteq> []" "NL \<notin> set lit"
  shows "find_line_start lit True (fm @ [NL] @ lit @ x) = Some (fm @ [NL], x)"
proof -
  from assms(2) have "find_line_start lit True (lit @ x) = Some ([], x)"
    by (cases lit) simp_all
  with find_line_start_separator [OF assms(2,3), of True fm "lit @ x"] assms(1)
  show ?thesis
    by (simp add: is_line_terminator_def)
qed

lemma prepended_line_skipped:
  assumes "lit \<noteq> []" "NL \<notin> set lit"
    and "list_all (\<lambda>c. \<not> is_line_terminator c) line" "\<not> prefix lit line"
    and "find_line_start lit True s = Some (x, r)"
  shows "find_line_start lit True (line @ [NL] @ s) = Some (line @ [NL] @ x, r)"
proof -
  from find_line_start_one_line [OF assms(1,3,4)]
  have "find_line_start lit True line = None" .
  with find_line_start_separator [OF assms(1,2), of True line s] assms(5)
  show ?thesis
    by (simp add: is_line_terminator_def)
qed

lemma test_line_start_head: "lit \<noteq> [] \<Longrightarrow> test_line_start lit (lit @ z)"
  by (cases lit) (simp_all add: test_line_start_def)


section \<open>Lines that could close the block\<close>

text \<open>
  The block ends at the first \<open>\n---\<close>. The edits of the editor bring no such place
  into an inner text that has none, as long as neither the inner text nor the new line
  for the modified key begins with \<open>---\<close>.
\<close>

lemma delimiter_chars: "NL \<notin> set (js ''---'')" "0x3A \<notin> set (js ''---'')"
  "0x3A \<notin> set (NL # js ''---'')"
  by (simp_all add: js_simps)

lemma match_frontmatter_shape:
  assumes "match_frontmatter content = Some (fm, rest)"
  shows "content = js ''---'' @ [NL] @ fm @ [NL] @ js ''---'' @ rest"
    and "\<not> sublist (NL # js ''---'') fm"
proof -
  from assms show c: "content = js ''---'' @ [NL] @ fm @ [NL] @ js ''---'' @ rest"
    by (simp add: match_frontmatter_Some)
  from assms have "split_at_first (NL # js ''---'') (drop 4 content) = Some (fm, rest)"
    by (simp add: match_frontmatter_def split: if_splits)
  moreover from c have "drop 4 content = fm @ (NL # js ''---'') @ rest"
    by (simp add: js_simps)
  ultimately have "split_at_first (NL # js ''---'') (fm @ (NL # js ''---'') @ rest) = Some (fm, rest)"
    by simp
  then show "\<not> sublist (NL # js ''---'') fm"
    by (rule split_at_first_no_earlier) simp
qed

lemma match_frontmatter_again:
  assumes "\<not> sublist (NL # js ''---'') fm"
  shows "match_frontmatter (js ''---'' @ [NL] @ fm @ [NL] @ js ''---'' @ rest) = Some (fm, rest)"
proof -
  from split_at_first_fresh [OF delimiter_chars(1) assms, of rest]
  have "split_at_first (NL # js ''---'') (fm @ NL # js ''---'' @ rest) = Some (fm, rest)" .
  then show ?thesis
    by (simp add: match_frontmatter_def js_simps)
qed

lemma replaced_line_keeps_block:
  assumes "simple_key mk" "NL \<notin> set v"
    and "\<not> sublist (NL # js ''---'') (pre @ (mk @ js '':'') @ post)"
  shows "\<not> sublist (NL # js ''---'')
           (pre @ (mk @ js '':'') @ js '' '' @ v @ dropWhile (\<lambda>c. \<not> is_line_terminator c) post)"
proof -
  let ?D = "NL # js ''---''"
  from assms(3) have "\<not> sublist ?D ((pre @ mk) @ 0x3A # post)"
    by (simp add: js_simps)
  with sublist_separator [OF delimiter_chars(3), of "pre @ mk" post]
  have 1: "\<not> sublist ?D (pre @ mk)" and 2: "\<not> sublist ?D post"
    by simp_all
  have "sublist (dropWhile (\<lambda>c. \<not> is_line_terminator c) post) post"
    by simp
  with 2 have 3: "\<not> sublist ?D (dropWhile (\<lambda>c. \<not> is_line_terminator c) post)"
    using sublist_order.order.trans by blast
  from assms(2) have "NL \<notin> set (js '' '' @ v)"
    by (simp add: js_simps)
  from sublist_needs_head [OF this, of "js ''---''" "dropWhile (\<lambda>c. \<not> is_line_terminator c) post"] 3
  have "\<not> sublist ?D ((js '' '' @ v) @ dropWhile (\<lambda>c. \<not> is_line_terminator c) post)"
    by simp
  with 1 sublist_separator [OF delimiter_chars(3), of "pre @ mk"
      "(js '' '' @ v) @ dropWhile (\<lambda>c. \<not> is_line_terminator c) post"]
  have "\<not> sublist ?D ((pre @ mk) @ 0x3A # (js '' '' @ v) @ dropWhile (\<lambda>c. \<not> is_line_terminator c) post)"
    by simp
  then show ?thesis
    by (simp add: js_simps)
qed

lemma replaced_line_keeps_start:
  assumes "\<not> prefix (js ''---'') (pre @ (mk @ js '':'') @ post)"
  shows "\<not> prefix (js ''---'') (pre @ (mk @ js '':'') @ x)"
proof -
  from assms have "\<not> prefix (js ''---'') ((pre @ mk) @ 0x3A # post)"
    by (simp add: js_simps)
  with prefix_separator [OF delimiter_chars(2), of "pre @ mk"]
  have "\<not> prefix (js ''---'') ((pre @ mk) @ 0x3A # x)"
    by simp
  then show ?thesis
    by (simp add: js_simps)
qed

lemma appended_line_keeps_block:
  assumes "simple_key mk" "NL \<notin> set v" "\<not> prefix (js ''---'') mk"
    and "\<not> sublist (NL # js ''---'') fm"
  shows "\<not> sublist (NL # js ''---'') (fm @ [NL] @ (mk @ js '':'') @ js '' '' @ v)"
proof -
  let ?D = "NL # js ''---''"
  let ?line = "(mk @ js '':'') @ js '' '' @ v"
  from assms(3) prefix_separator [OF delimiter_chars(2), of mk "js '' '' @ v"]
  have 1: "\<not> prefix (js ''---'') ?line"
    by (simp add: js_simps)
  from simple_key_no_newline [OF assms(1)] assms(2) have "NL \<notin> set ?line"
    by (simp add: js_simps)
  from sublist_needs_head [OF this, of "js ''---''" "[]"]
  have 2: "\<not> sublist ?D ?line"
    by simp
  from sublist_at_head [OF delimiter_chars(1), of fm ?line] assms(4) 1 2
  show ?thesis by simp
qed

lemma appended_line_keeps_start:
  "\<not> prefix (js ''---'') fm \<Longrightarrow> \<not> prefix (js ''---'') (fm @ [NL] @ x)"
  using prefix_separator [OF delimiter_chars(1), of fm x] by simp

lemma prepended_line_keeps_block:
  assumes "NL \<notin> set line" "\<not> prefix (js ''---'') s" "\<not> sublist (NL # js ''---'') s"
  shows "\<not> sublist (NL # js ''---'') (line @ [NL] @ s)"
proof -
  from sublist_needs_head [OF assms(1), of "js ''---''" "[]"]
  have "\<not> sublist (NL # js ''---'') line"
    by simp
  with sublist_at_head [OF delimiter_chars(1), of line s] assms(2,3)
  show ?thesis by simp
qed

section \<open>What the editor does to the inner text\<close>

lemma colon_space: "js '': '' = js '':'' @ js '' ''"
  by (simp add: js_simps)

lemma replace_frontmatter_plain:
  "DOLLAR \<notin> set fm2 \<Longrightarrow>
     replace_frontmatter content fm rest (js ''---'' @ NL # fm2 @ NL # js ''---'') =
       js ''---'' @ NL # fm2 @ NL # js ''---'' @ rest"
  using replace_frontmatter_verbatim [of fm2 content fm rest] by simp

lemma updateModifiedTime_plain:
  assumes "match_frontmatter content = Some (fm, rest)"
    and "simple_key (createdKey st)" "simple_key (modifiedKey st)"
    and "DOLLAR \<notin> set v"
    and "DOLLAR \<notin> set (with_created (createdKey st) v (with_modified (modifiedKey st) v fm))"
  shows "updateModifiedTime st content v =
           Inr (js ''---'' @ [NL]
                  @ with_created (createdKey st) v (with_modified (modifiedKey st) v fm)
                  @ [NL] @ js ''---'' @ rest)"
proof -
  let ?L = "modifiedKey st @ js '':''"
  have 1: "(if test_line_start ?L fm then replace_line ?L (js ''$1 '' @ v) fm
            else fm @ [NL] @ modifiedKey st @ js '': '' @ v) = with_modified (modifiedKey st) v fm"
    using assms(4)
    by (auto simp: with_modified_def test_line_start_def replace_line_plain colon_space
        split: option.splits)
  have 2: "(if \<not> test_line_start (createdKey st @ js '':'') fm1
            then createdKey st @ js '': '' @ v @ [NL] @ fm1 else fm1) =
           with_created (createdKey st) v fm1" for fm1
    by (simp add: with_created_def colon_space)
  from assms(5) show ?thesis
    unfolding updateModifiedTime_def
    by (simp add: assms(1) simple_key_pattern [OF assms(2)] simple_key_pattern [OF assms(3)]
        1 2 Let_def replace_frontmatter_plain)
qed


lemma find_line_start_parts:
  "find_line_start lit b s = Some (p, q) \<Longrightarrow> set p \<subseteq> set s \<and> set q \<subseteq> set s"
  by (drule find_line_start_decomp) auto

lemma with_modified_no_dollar:
  assumes "simple_key mk" "DOLLAR \<notin> set v" "DOLLAR \<notin> set fm"
  shows "DOLLAR \<notin> set (with_modified mk v fm)"
proof (cases "find_line_start (mk @ js '':'') True fm")
  case None
  with assms simple_key_no_dollar [OF assms(1)] show ?thesis
    by (simp add: with_modified_def js_simps)
next
  case (Some r)
  then obtain pre post where r: "find_line_start (mk @ js '':'') True fm = Some (pre, post)"
    by (cases r) auto
  from find_line_start_parts [OF r] assms(3)
  have "DOLLAR \<notin> set pre" "DOLLAR \<notin> set post"
    by auto
  moreover then have "DOLLAR \<notin> set (dropWhile (\<lambda>c. \<not> is_line_terminator c) post)"
    by (auto dest: set_dropWhileD)
  ultimately show ?thesis
    using r assms simple_key_no_dollar [OF assms(1)]
    by (simp add: with_modified_def js_simps)
qed

lemma with_created_no_dollar:
  assumes "simple_key ck" "DOLLAR \<notin> set v" "DOLLAR \<notin> set fm"
  shows "DOLLAR \<notin> set (with_created ck v fm)"
  using assms simple_key_no_dollar [OF assms(1)]
  by (simp add: with_created_def js_simps)


lemma key_literal_nonempty: "k @ js '':'' \<noteq> []"
  by (simp add: js_simps)

lemma with_modified_settled:
  assumes "simple_key mk"
  shows "\<exists>x y. find_line_start (mk @ js '':'') True (with_modified mk v fm) =
           Some (x, js '' '' @ v @ dropWhile (\<lambda>c. \<not> is_line_terminator c) y)"
proof (cases "find_line_start (mk @ js '':'') True fm")
  case None
  from appended_line_found [OF None key_literal_nonempty simple_key_no_newline [OF assms],
      of "js '' '' @ v"]
  have "find_line_start (mk @ js '':'') True (with_modified mk v fm) =
          Some (fm @ [NL], js '' '' @ v @ dropWhile (\<lambda>c. \<not> is_line_terminator c) [])"
    using None by (simp add: with_modified_def)
  then show ?thesis by blast
next
  case (Some r)
  then obtain pre post where r: "find_line_start (mk @ js '':'') True fm = Some (pre, post)"
    by (cases r) auto
  from replaced_line_found [OF key_literal_nonempty r,
      of "js '' '' @ v @ dropWhile (\<lambda>c. \<not> is_line_terminator c) post"]
  have "find_line_start (mk @ js '':'') True (with_modified mk v fm) =
          Some (pre, js '' '' @ v @ dropWhile (\<lambda>c. \<not> is_line_terminator c) post)"
    using r by (simp add: with_modified_def)
  then show ?thesis by blast
qed

lemma with_modified_keeps_block:
  assumes "simple_key mk" "NL \<notin> set v" "\<not> prefix (js ''---'') mk"
    and "\<not> sublist (NL # js ''---'') fm" "\<not> prefix (js ''---'') fm"
  shows "\<not> sublist (NL # js ''---'') (with_modified mk v fm)"
    and "\<not> prefix (js ''---'') (with_modified mk v fm)"
proof -
  show "\<not> sublist (NL # js ''---'') (with_modified mk v fm)"
  proof (cases "find_line_start (mk @ js '':'') True fm")
    case None
    with appended_line_keeps_block [OF assms(1-4)] show ?thesis
      by (simp add: with_modified_def)
  next
    case (Some r)
    then obtain pre post where r: "find_line_start (mk @ js '':'') True fm = Some (pre, post)"
      by (cases r) auto
    from find_line_start_decomp [OF r] assms(4)
    have "\<not> sublist (NL # js ''---'') (pre @ (mk @ js '':'') @ post)"
      by simp
    from replaced_line_keeps_block [OF assms(1,2) this] r show ?thesis
      by (simp add: with_modified_def)
  qed
  show "\<not> prefix (js ''---'') (with_modified mk v fm)"
  proof (cases "find_line_start (mk @ js '':'') True fm")
    case None
    with appended_line_keeps_start [OF assms(5)] show ?thesis
      by (simp add: with_modified_def)
  next
    case (Some r)
    then obtain pre post where r: "find_line_start (mk @ js '':'') True fm = Some (pre, post)"
      by (cases r) auto
    from find_line_start_decomp [OF r] assms(5)
    have "\<not> prefix (js ''---'') (pre @ (mk @ js '':'') @ post)"
      by simp
    from replaced_line_keeps_start [OF this] r show ?thesis
      by (simp add: with_modified_def)
  qed
qed

lemma with_created_keeps_block:
  assumes "simple_key ck" "NL \<notin> set v"
    and "\<not> sublist (NL # js ''---'') fm" "\<not> prefix (js ''---'') fm"
  shows "\<not> sublist (NL # js ''---'') (with_created ck v fm)"
proof (cases "test_line_start (ck @ js '':'') fm")
  case True
  with assms(3) show ?thesis by (simp add: with_created_def)
next
  case False
  from simple_key_no_newline [OF assms(1)] assms(2)
  have "NL \<notin> set ((ck @ js '':'') @ js '' '' @ v)"
    by (simp add: js_simps)
  from prepended_line_keeps_block [OF this assms(4,3)] False show ?thesis
    by (simp add: with_created_def)
qed

lemma with_created_settled:
  assumes "simple_key ck" "simple_key mk"
    and "list_all (\<lambda>c. c \<noteq> DOLLAR \<and> \<not> is_line_terminator c) v"
    and "find_line_start (mk @ js '':'') True fm = Some (x, r)"
  shows "\<exists>x'. find_line_start (mk @ js '':'') True (with_created ck v fm) = Some (x', r)"
proof (cases "test_line_start (ck @ js '':'') fm")
  case True
  with assms(4) show ?thesis by (simp add: with_created_def)
next
  case False
  let ?line = "(ck @ js '':'') @ js '' '' @ v"
  have n: "\<not> prefix (mk @ js '':'') ?line"
  proof
    assume "prefix (mk @ js '':'') ?line"
    then have "prefix (mk @ js '':'') (ck @ js '':'' @ js '' '' @ v)"
      by simp
    from simple_key_clash [OF assms(1,2) this] assms(4) False show False
      by (simp add: test_line_start_def)
  qed
  from simple_key_one_line [OF assms(1)] value_facts(3) [OF assms(3)]
  have l: "list_all (\<lambda>c. \<not> is_line_terminator c) ?line"
    by simp
  from prepended_line_skipped [OF key_literal_nonempty simple_key_no_newline [OF assms(2)] l n
      assms(4)] False
  show ?thesis
    by (simp add: with_created_def)
qed

lemma with_created_has_key: "test_line_start (ck @ js '':'') (with_created ck v fm)"
  using test_line_start_head [OF key_literal_nonempty, of ck "js '' '' @ v @ [NL] @ fm"]
  by (simp add: with_created_def)

lemma with_created_idle: "test_line_start (ck @ js '':'') fm \<Longrightarrow> with_created ck v fm = fm"
  by (simp add: with_created_def)

lemma with_modified_idle:
  assumes "list_all (\<lambda>c. c \<noteq> DOLLAR \<and> \<not> is_line_terminator c) v"
    and "find_line_start (mk @ js '':'') True s =
           Some (x, js '' '' @ v @ dropWhile (\<lambda>c. \<not> is_line_terminator c) y)"
  shows "with_modified mk v s = s"
proof -
  from rest_of_line(2) [OF value_facts(3) [OF assms(1)], of y]
  have "dropWhile (\<lambda>c. \<not> is_line_terminator c)
          (js '' '' @ v @ dropWhile (\<lambda>c. \<not> is_line_terminator c) y) =
        dropWhile (\<lambda>c. \<not> is_line_terminator c) y"
    by simp
  with assms(2) find_line_start_decomp [OF assms(2)] show ?thesis
    by (simp add: with_modified_def)
qed


section \<open>The block in lines\<close>















section \<open>A document without a frontmatter block\<close>




section \<open>Applying the update twice\<close>

text \<open>
  Claim C7, as amended. Let the two keys be free of syntax characters, colons and line
  terminators, let the modified key not begin with \<open>---\<close>, and let the value hold
  neither a dollar sign nor a line terminator. Then for every document without a
  frontmatter block, and for every document whose block has an inner text without a dollar
  sign that does not begin with \<open>---\<close>, \<open>updateModifiedTime\<close> returns a text, and
  applied to that text with the same value it returns the same text again.
\<close>

theorem updateModifiedTime_idempotent:
  assumes ck: "simple_key (createdKey st)" and mk: "simple_key (modifiedKey st)"
    and dash: "\<not> prefix (js ''---'') (modifiedKey st)"
    and v: "list_all (\<lambda>c. c \<noteq> DOLLAR \<and> \<not> is_line_terminator c) v"
    and inner: "\<forall>fm rest. match_frontmatter content = Some (fm, rest) \<longrightarrow>
                  DOLLAR \<notin> set fm \<and> \<not> prefix (js ''---'') fm"
  shows "\<exists>once. updateModifiedTime st content v = Inr once \<and>
                 updateModifiedTime st once v = Inr once"
proof (cases "match_frontmatter content")
  case None
  then have "updateModifiedTime st content v = Inr content"
    by (simp add: updateModifiedTime_def)
  then show ?thesis by blast
next
  case (Some r)
  then obtain fm rest where m: "match_frontmatter content = Some (fm, rest)"
    by (cases r) auto
  let ?L = "modifiedKey st @ js '':''"
  let ?m = "with_modified (modifiedKey st) v fm"
  let ?c = "with_created (createdKey st) v ?m"
  let ?once = "js ''---'' @ [NL] @ ?c @ [NL] @ js ''---'' @ rest"
  from inner m have fm: "DOLLAR \<notin> set fm" "\<not> prefix (js ''---'') fm"
    by auto
  note vf = value_facts [OF v]
  from with_modified_no_dollar [OF mk vf(1) fm(1)]
  have dm: "DOLLAR \<notin> set ?m" .
  from with_created_no_dollar [OF ck vf(1) dm]
  have dc: "DOLLAR \<notin> set ?c" .
  from updateModifiedTime_plain [OF m ck mk vf(1) dc]
  have first: "updateModifiedTime st content v = Inr ?once" .
  from with_modified_keeps_block [OF mk vf(2) dash match_frontmatter_shape(2) [OF m] fm(2)]
  have bm: "\<not> sublist (NL # js ''---'') ?m" "\<not> prefix (js ''---'') ?m" .
  from with_created_keeps_block [OF ck vf(2) bm]
  have "\<not> sublist (NL # js ''---'') ?c" .
  from match_frontmatter_again [OF this]
  have again: "match_frontmatter ?once = Some (?c, rest)" .
  from with_modified_settled [OF mk] obtain x y where
    "find_line_start ?L True ?m =
       Some (x, js '' '' @ v @ dropWhile (\<lambda>c. \<not> is_line_terminator c) y)"
    by blast
  from with_created_settled [OF ck mk v this] obtain x' where
    "find_line_start ?L True ?c =
       Some (x', js '' '' @ v @ dropWhile (\<lambda>c. \<not> is_line_terminator c) y)"
    by blast
  from with_modified_idle [OF v this]
  have im: "with_modified (modifiedKey st) v ?c = ?c" .
  from with_created_idle [OF with_created_has_key]
  have ic: "with_created (createdKey st) v ?c = ?c" .
  from dc have "DOLLAR \<notin> set (with_created (createdKey st) v
      (with_modified (modifiedKey st) v ?c))"
    by (simp add: im ic)
  from updateModifiedTime_plain [OF again ck mk vf(1) this]
  have "updateModifiedTime st ?once v = Inr ?once"
    by (simp only: im ic)
  with first show ?thesis by blast
qed

theorem updateModifiedTime_idempotent_witness:
  "updateModifiedTime DEFAULT_SETTINGS
     (doc [''---'', ''title: a'', ''modified: old'', ''---'', ''body'']) (js ''T'') =
     Inr (doc [''---'', ''created: T'', ''title: a'', ''modified: T'', ''---'', ''body''])
   \<and> updateModifiedTime DEFAULT_SETTINGS
     (doc [''---'', ''created: T'', ''title: a'', ''modified: T'', ''---'', ''body'']) (js ''T'') =
     Inr (doc [''---'', ''created: T'', ''title: a'', ''modified: T'', ''---'', ''body''])"
proof -
  let ?d = "doc [''---'', ''title: a'', ''modified: old'', ''---'', ''body'']"
  let ?e = "doc [''---'', ''created: T'', ''title: a'', ''modified: T'', ''---'', ''body'']"
  have k: "simple_key (createdKey DEFAULT_SETTINGS)" "simple_key (modifiedKey DEFAULT_SETTINGS)"
    "\<not> prefix (js ''---'') (modifiedKey DEFAULT_SETTINGS)"
    "list_all (\<lambda>c. c \<noteq> DOLLAR \<and> \<not> is_line_terminator c) (js ''T'')"
    by code_simp+
  have m: "match_frontmatter ?d = Some (js ''title: a'' @ [NL] @ js ''modified: old'', NL # js ''body'')"
    by code_simp
  have i: "DOLLAR \<notin> set (js ''title: a'' @ [NL] @ js ''modified: old'')"
    "\<not> prefix (js ''---'') (js ''title: a'' @ [NL] @ js ''modified: old'')"
    by code_simp+
  from m i have inner: "\<forall>fm rest. match_frontmatter ?d = Some (fm, rest) \<longrightarrow>
                  DOLLAR \<notin> set fm \<and> \<not> prefix (js ''---'') fm"
    by simp
  have first: "updateModifiedTime DEFAULT_SETTINGS ?d (js ''T'') = Inr ?e"
    by code_simp
  from updateModifiedTime_idempotent [OF k inner] first show ?thesis
    by auto
qed

text \<open>
  The claim as stated fails. The inner text of \<open>---\n---\n---\<close> is the line \<open>---\<close>;
  once the created key stands in front of it, that line closes the block, and the second
  application works on a shorter block than the first. It also fails where the inner text
  holds dollar signs, since the text is written back as a replacement template: each
  application turns \<open>$$\<close> into \<open>$\<close>.
\<close>

theorem updateModifiedTime_idempotent_counterexample:
  "updateModifiedTime DEFAULT_SETTINGS (doc [''---'', ''---'', ''---'']) (js ''1'') =
     Inr (doc [''---'', ''created: 1'', ''---'', ''modified: 1'', ''---''])
   \<and> updateModifiedTime DEFAULT_SETTINGS
       (doc [''---'', ''created: 1'', ''---'', ''modified: 1'', ''---'']) (js ''1'') =
     Inr (doc [''---'', ''created: 1'', ''modified: 1'', ''---'', ''modified: 1'', ''---''])
   \<and> doc [''---'', ''created: 1'', ''modified: 1'', ''---'', ''modified: 1'', ''---''] \<noteq>
       doc [''---'', ''created: 1'', ''---'', ''modified: 1'', ''---'']
   \<and> updateModifiedTime DEFAULT_SETTINGS
       (doc [''---'', ''created: 0'', ''modified: 0'', ''math: $$$$'', ''---'', ''body'']) (js ''1'') =
     Inr (doc [''---'', ''created: 0'', ''modified: 1'', ''math: $$'', ''---'', ''body''])
   \<and> updateModifiedTime DEFAULT_SETTINGS
       (doc [''---'', ''created: 0'', ''modified: 1'', ''math: $$'', ''---'', ''body'']) (js ''1'') =
     Inr (doc [''---'', ''created: 0'', ''modified: 1'', ''math: $'', ''---'', ''body''])"
  by code_simp

section \<open>Dollar signs in the text that is written back\<close>

text \<open>
  Both operations hand the new block to \<open>content.replace\<close> as the replacement, and a
  replacement is a template. Without a dollar sign in it the block is written as it
  stands (\<open>addFrontmatter_plain\<close>, \<open>updateModifiedTime_plain\<close>); with one it is not.
  What stands behind the block is kept in every case.
\<close>

lemma body_kept:
  assumes "match_frontmatter content = Some (fm, rest)"
  shows "addFrontmatter st content created modified = Inr out \<Longrightarrow> suffix rest out"
    and "updateModifiedTime st content modified = Inr out \<Longrightarrow> suffix rest out"
  using assms
  by (auto simp: addFrontmatter_def updateModifiedTime_def replace_frontmatter_def Let_def
      suffix_def split: sum.splits)

text \<open>
  Claim C1 does not hold of the code. In a document whose two keys are both present, so
  that nothing has to be added, the line \<open>price: $$5\<close> belongs to neither key; yet
  \<open>addFrontmatter\<close> returns it as \<open>price: $5\<close>, and so does \<open>updateModifiedTime\<close>,
  which should touch the modified line only.
\<close>

theorem other_frontmatter_line_altered:
  "addFrontmatter DEFAULT_SETTINGS
     (doc [''---'', ''created: 1'', ''modified: 2'', ''price: $$5'', ''---'', ''body''])
     (js ''X'') (js ''X'') =
     Inr (doc [''---'', ''created: 1'', ''modified: 2'', ''price: $5'', ''---'', ''body''])
   \<and> updateModifiedTime DEFAULT_SETTINGS
     (doc [''---'', ''created: 1'', ''modified: 2'', ''price: $$5'', ''---'', ''body''])
     (js ''X'') =
     Inr (doc [''---'', ''created: 1'', ''modified: X'', ''price: $5'', ''---'', ''body''])"
  by code_simp

text \<open>
  Claim C3 does not hold of the code for every document with a block. The example of the
  claim evaluates as it says. But where the inner text is \<open>foo: $&\<close> the whole matched
  block is copied into the line, so that the line added for the modified key ends up
  behind a closing \<open>---\<close>; and with the value \<open>$$\<close> the lines added are
  \<open>created: $\<close> and \<open>modified: $\<close>, not \<open>created: $$\<close> and \<open>modified: $$\<close>.
\<close>

theorem addFrontmatter_existing_block_evaluated:
  "addFrontmatter DEFAULT_SETTINGS (doc [''---'', ''foo: bar'', ''---'', ''body''])
     (js ''X'') (js ''X'') =
     Inr (doc [''---'', ''created: X'', ''foo: bar'', ''modified: X'', ''---'', ''body''])
   \<and> addFrontmatter DEFAULT_SETTINGS (doc [''---'', ''foo: $&'', ''---'', ''body''])
     (js ''X'') (js ''X'') =
     Inr (doc [''---'', ''created: X'', ''foo: ---'', ''foo: $&'', ''---'', ''modified: X'',
               ''---'', ''body''])
   \<and> addFrontmatter DEFAULT_SETTINGS (doc [''---'', ''foo: bar'', ''---'', ''body''])
     (js ''$$'') (js ''$$'') =
     Inr (doc [''---'', ''created: $'', ''foo: bar'', ''modified: $'', ''---'', ''body''])"
  by code_simp

text \<open>
  Claim C6 does not hold of the code for every document with a block. Without a block the
  document is returned as it is. With the value \<open>$$\<close> the modified line becomes
  \<open>modified: $\<close>, whether it is replaced or appended, and the created line that is put
  in becomes \<open>created: $\<close>; with the value \<open>$&\<close> the old line is copied into the new
  one. Where the inner text holds \<open>$&\<close>, the old modified line comes back into the block.
\<close>

theorem updateModifiedTime_evaluated:
  "updateModifiedTime DEFAULT_SETTINGS (js ''body'') (js ''T'') = Inr (js ''body'')
   \<and> updateModifiedTime DEFAULT_SETTINGS
     (doc [''---'', ''created: 1'', ''modified: 2'', ''---'', ''body'']) (js ''$$'') =
     Inr (doc [''---'', ''created: 1'', ''modified: $'', ''---'', ''body''])
   \<and> updateModifiedTime DEFAULT_SETTINGS
     (doc [''---'', ''foo: bar'', ''---'', ''body'']) (js ''$$'') =
     Inr (doc [''---'', ''created: $'', ''foo: bar'', ''modified: $'', ''---'', ''body''])
   \<and> updateModifiedTime DEFAULT_SETTINGS
     (doc [''---'', ''created: 1'', ''modified: 2'', ''---'', ''body'']) (js ''$&'') =
     Inr (doc [''---'', ''created: 1'', ''modified: modified: 2'', ''---'', ''body''])
   \<and> updateModifiedTime DEFAULT_SETTINGS
     (doc [''---'', ''modified: old'', ''note: $&'', ''---'', ''body'']) (js ''T'') =
     Inr (doc [''---'', ''created: T'', ''modified: T'', ''note: ---'', ''modified: old'',
               ''note: $&'', ''---'', ''---'', ''body''])"
  by code_simp

end
